theory Spec2Isabelle
  imports Complex_Main "HOL-Library.Word"
begin

unbundle bit_operations_syntax

section \<open>Bytes, strings and number formatting\<close>

text \<open>
  A Go \<^verbatim>\<open>[]byte\<close> is a list of 8-bit words, a Go \<^verbatim>\<open>uint64\<close> a 64-bit word.
  Go's \<^verbatim>\<open>int\<close>, \<^verbatim>\<open>int64\<close> and \<^verbatim>\<open>time.Duration\<close> values are modelled as
  unbounded integers: every quantity of these types that the development reasons about
  (lengths, counts, byte totals, nanosecond readings) stays far below \<open>2 ^ 63\<close>.
  String constants of the source are converted to bytes by \<open>bytes\<close>.
\<close>

type_synonym byte = "8 word"
type_synonym u32 = "32 word"
type_synonym u64 = "64 word"

definition bytes :: "string \<Rightarrow> byte list" where
  "bytes s = map of_char s"

text \<open>\<^verbatim>\<open>binary.BigEndian.PutUint64\<close>: the eight bytes of a counter, most significant first.\<close>

definition PutUint64 :: "u64 \<Rightarrow> byte list" where
  "PutUint64 v = [ucast (drop_bit 56 v), ucast (drop_bit 48 v), ucast (drop_bit 40 v),
                  ucast (drop_bit 32 v), ucast (drop_bit 24 v), ucast (drop_bit 16 v),
                  ucast (drop_bit 8 v), ucast v]"

text \<open>
  The verb \<^verbatim>\<open>%d\<close> of \<^verbatim>\<open>fmt.Sprintf\<close> and \<^verbatim>\<open>strconv.FormatInt(v, 10)\<close>:
  decimal digits, with a leading minus sign for a negative number.
\<close>

definition digit_char :: "nat \<Rightarrow> char" where
  "digit_char d = ''0123456789'' ! d"

fun nat_digits :: "nat \<Rightarrow> string" where
  "nat_digits n = (if n < 10 then [digit_char n] else nat_digits (n div 10) @ [digit_char (n mod 10)])"

declare nat_digits.simps [simp del]

definition FormatInt :: "int \<Rightarrow> string" where
  "FormatInt v = (if v < 0 then CHR ''-'' # nat_digits (nat (- v)) else nat_digits (nat v))"

section \<open>SHA-256 and HMAC\<close>

text \<open>
  The generators call \<^verbatim>\<open>sha256.Sum256\<close> and \<^verbatim>\<open>hmac.New(sha256.New, key)\<close> of
  Go's standard library. Both are written out here as FIPS 180-4 and RFC 2104 define
  them, on 32-bit words, so that the generators below are closed, executable functions.
\<close>

definition be32 :: "u32 \<Rightarrow> byte list" where
  "be32 w = [ucast (drop_bit 24 w), ucast (drop_bit 16 w), ucast (drop_bit 8 w), ucast w]"

definition load32 :: "byte list \<Rightarrow> u32" where
  "load32 bs = foldl (\<lambda>acc b. push_bit 8 acc OR ucast b) 0 bs"

function chunks :: "nat \<Rightarrow> 'a list \<Rightarrow> 'a list list" where
  "chunks n xs = (if n = 0 \<or> xs = [] then [] else take n xs # chunks n (drop n xs))"
  by pat_completeness auto
termination
  by (relation "measure (\<lambda>(n, xs). length xs)") auto

declare chunks.simps [simp del]

definition K256 :: "u32 list" where
  "K256 =
    [1116352408, 1899447441, 3049323471, 3921009573, 961987163, 1508970993,
     2453635748, 2870763221, 3624381080, 310598401, 607225278, 1426881987,
     1925078388, 2162078206, 2614888103, 3248222580, 3835390401, 4022224774,
     264347078, 604807628, 770255983, 1249150122, 1555081692, 1996064986,
     2554220882, 2821834349, 2952996808, 3210313671, 3336571891, 3584528711,
     113926993, 338241895, 666307205, 773529912, 1294757372, 1396182291,
     1695183700, 1986661051, 2177026350, 2456956037, 2730485921, 2820302411,
     3259730800, 3345764771, 3516065817, 3600352804, 4094571909, 275423344,
     430227734, 506948616, 659060556, 883997877, 958139571, 1322822218,
     1537002063, 1747873779, 1955562222, 2024104815, 2227730452, 2361852424,
     2428436474, 2756734187, 3204031479, 3329325298]"

type_synonym sha_state = "u32 \<times> u32 \<times> u32 \<times> u32 \<times> u32 \<times> u32 \<times> u32 \<times> u32"

definition H256 :: sha_state where
  "H256 = (1779033703, 3144134277, 1013904242, 2773480762,
           1359893119, 2600822924, 528734635, 1541459225)"

definition rotr :: "nat \<Rightarrow> u32 \<Rightarrow> u32" where
  "rotr n x = drop_bit n x OR push_bit (32 - n) x"

definition Ch :: "u32 \<Rightarrow> u32 \<Rightarrow> u32 \<Rightarrow> u32" where
  "Ch x y z = (x AND y) XOR (NOT x AND z)"

definition Maj :: "u32 \<Rightarrow> u32 \<Rightarrow> u32 \<Rightarrow> u32" where
  "Maj x y z = (x AND y) XOR (x AND z) XOR (y AND z)"

definition bsig0 :: "u32 \<Rightarrow> u32" where
  "bsig0 x = rotr 2 x XOR rotr 13 x XOR rotr 22 x"

definition bsig1 :: "u32 \<Rightarrow> u32" where
  "bsig1 x = rotr 6 x XOR rotr 11 x XOR rotr 25 x"

definition ssig0 :: "u32 \<Rightarrow> u32" where
  "ssig0 x = rotr 7 x XOR rotr 18 x XOR drop_bit 3 x"

definition ssig1 :: "u32 \<Rightarrow> u32" where
  "ssig1 x = rotr 17 x XOR rotr 19 x XOR drop_bit 10 x"

fun schedule :: "nat \<Rightarrow> u32 list \<Rightarrow> u32 list" where
  "schedule 0 w = w"
| "schedule (Suc k) w =
     (let t = length w
      in schedule k (w @ [ssig1 (w ! (t - 2)) + w ! (t - 7) + ssig0 (w ! (t - 15)) + w ! (t - 16)]))"

fun sha_round :: "sha_state \<Rightarrow> u32 \<times> u32 \<Rightarrow> sha_state" where
  "sha_round (a, b, c, d, e, f, g, h) (k, w) =
     (let t1 = h + bsig1 e + Ch e f g + k + w;
          t2 = bsig0 a + Maj a b c
      in (t1 + t2, a, b, c, d + t1, e, f, g))"

fun add_state :: "sha_state \<Rightarrow> sha_state \<Rightarrow> sha_state" where
  "add_state (a, b, c, d, e, f, g, h) (a', b', c', d', e', f', g', h') =
     (a + a', b + b', c + c', d + d', e + e', f + f', g + g', h + h')"

definition compress :: "sha_state \<Rightarrow> byte list \<Rightarrow> sha_state" where
  "compress hs blk =
     (let w = schedule 48 (map load32 (chunks 4 blk))
      in add_state hs (foldl sha_round hs (zip K256 w)))"

definition sha_pad :: "byte list \<Rightarrow> byte list" where
  "sha_pad m = m @ [128] @ replicate ((119 - length m mod 64) mod 64) 0
                 @ PutUint64 (word_of_nat (8 * length m))"

fun digest :: "sha_state \<Rightarrow> byte list" where
  "digest (a, b, c, d, e, f, g, h) =
     be32 a @ be32 b @ be32 c @ be32 d @ be32 e @ be32 f @ be32 g @ be32 h"

definition Sum256 :: "byte list \<Rightarrow> byte list" where
  "Sum256 m = digest (foldl compress H256 (chunks 64 (sha_pad m)))"

text \<open>
  HMAC: a key longer than the 64-byte block is hashed first, a shorter one is padded with
  zero bytes; all the data written to the MAC is one message \<open>msg\<close>.
\<close>

definition hmac_key :: "byte list \<Rightarrow> byte list" where
  "hmac_key key =
     (let k = (if length key > 64 then Sum256 key else key)
      in k @ replicate (64 - length k) 0)"

definition hmac_sha256 :: "byte list \<Rightarrow> byte list \<Rightarrow> byte list" where
  "hmac_sha256 key msg =
     (let k = hmac_key key
      in Sum256 (map (\<lambda>b. b XOR 92) k @ Sum256 (map (\<lambda>b. b XOR 54) k @ msg)))"

lemma length_be32: "length (be32 w) = 4"
  by (simp add: be32_def)

lemma length_digest: "length (digest s) = 32"
  by (cases s rule: digest.cases) (simp add: length_be32)

lemma length_Sum256 [simp]: "length (Sum256 m) = 32"
  by (simp add: Sum256_def length_digest)

lemma length_hmac_sha256 [simp]: "length (hmac_sha256 key msg) = 32"
  by (simp add: hmac_sha256_def Let_def)

lemma Sum256_not_Nil [simp]: "Sum256 m \<noteq> []"
proof
  assume "Sum256 m = []"
  then have "length (Sum256 m) = 0" by simp
  then show False by simp
qed

subsection \<open>The same functions on integers\<close>

text \<open>
  A second rendering of the hash, for evaluation: a 32-bit word is an integer in
  \<open>[0, 2 ^ 32)\<close> and a byte an integer in \<open>[0, 256)\<close>, every sum is reduced modulo
  \<open>2 ^ 32\<close>, and a rotation by \<open>n\<close> is written with the two constants \<open>2 ^ n\<close> and
  \<open>2 ^ (32 - n)\<close>. These functions are proved below to compute the unsigned values of
  the functions on words; they are what the values of concrete blocks are computed with.
\<close>

type_synonym int_state = "int \<times> int \<times> int \<times> int \<times> int \<times> int \<times> int \<times> int"

definition rotr_int :: "int \<Rightarrow> int \<Rightarrow> int \<Rightarrow> int" where
  "rotr_int p q x = x div p OR (x mod p) * q"

definition Ch_int :: "int \<Rightarrow> int \<Rightarrow> int \<Rightarrow> int" where
  "Ch_int x y z = (x AND y) XOR ((4294967295 - x) AND z)"

definition Maj_int :: "int \<Rightarrow> int \<Rightarrow> int \<Rightarrow> int" where
  "Maj_int x y z = (x AND y) XOR (x AND z) XOR (y AND z)"

definition bsig0_int :: "int \<Rightarrow> int" where
  "bsig0_int x = rotr_int 4 1073741824 x XOR rotr_int 8192 524288 x XOR rotr_int 4194304 1024 x"

definition bsig1_int :: "int \<Rightarrow> int" where
  "bsig1_int x = rotr_int 64 67108864 x XOR rotr_int 2048 2097152 x XOR rotr_int 33554432 128 x"

definition ssig0_int :: "int \<Rightarrow> int" where
  "ssig0_int x = rotr_int 128 33554432 x XOR rotr_int 262144 16384 x XOR x div 8"

definition ssig1_int :: "int \<Rightarrow> int" where
  "ssig1_int x = rotr_int 131072 32768 x XOR rotr_int 524288 8192 x XOR x div 1024"

fun schedule_int :: "nat \<Rightarrow> int list \<Rightarrow> int list" where
  "schedule_int 0 w = w"
| "schedule_int (Suc k) w =
     (let t = length w
      in schedule_int k
           (w @ [(ssig1_int (w ! (t - 2)) + w ! (t - 7) + ssig0_int (w ! (t - 15)) + w ! (t - 16))
                 mod 4294967296]))"

fun sha_round_int :: "int_state \<Rightarrow> int \<times> int \<Rightarrow> int_state" where
  "sha_round_int (a, b, c, d, e, f, g, h) (k, w) =
     (let t1 = (h + bsig1_int e + Ch_int e f g + k + w) mod 4294967296;
          t2 = (bsig0_int a + Maj_int a b c) mod 4294967296
      in ((t1 + t2) mod 4294967296, a, b, c, (d + t1) mod 4294967296, e, f, g))"

fun add_state_int :: "int_state \<Rightarrow> int_state \<Rightarrow> int_state" where
  "add_state_int (a, b, c, d, e, f, g, h) (a', b', c', d', e', f', g', h') =
     ((a + a') mod 4294967296, (b + b') mod 4294967296, (c + c') mod 4294967296,
      (d + d') mod 4294967296, (e + e') mod 4294967296, (f + f') mod 4294967296,
      (g + g') mod 4294967296, (h + h') mod 4294967296)"

definition load32_int :: "int list \<Rightarrow> int" where
  "load32_int bs = foldl (\<lambda>acc b. acc * 256 mod 4294967296 OR b) 0 bs"

definition K256_int :: "int list" where
  "K256_int =
    [1116352408, 1899447441, 3049323471, 3921009573, 961987163, 1508970993,
     2453635748, 2870763221, 3624381080, 310598401, 607225278, 1426881987,
     1925078388, 2162078206, 2614888103, 3248222580, 3835390401, 4022224774,
     264347078, 604807628, 770255983, 1249150122, 1555081692, 1996064986,
     2554220882, 2821834349, 2952996808, 3210313671, 3336571891, 3584528711,
     113926993, 338241895, 666307205, 773529912, 1294757372, 1396182291,
     1695183700, 1986661051, 2177026350, 2456956037, 2730485921, 2820302411,
     3259730800, 3345764771, 3516065817, 3600352804, 4094571909, 275423344,
     430227734, 506948616, 659060556, 883997877, 958139571, 1322822218,
     1537002063, 1747873779, 1955562222, 2024104815, 2227730452, 2361852424,
     2428436474, 2756734187, 3204031479, 3329325298]"

definition H256_int :: int_state where
  "H256_int = (1779033703, 3144134277, 1013904242, 2773480762,
               1359893119, 2600822924, 528734635, 1541459225)"

definition compress_int :: "int_state \<Rightarrow> int list \<Rightarrow> int_state" where
  "compress_int hs blk =
     (let w = schedule_int 48 (map load32_int (chunks 4 blk))
      in add_state_int hs (foldl sha_round_int hs (zip K256_int w)))"

definition be32_int :: "int \<Rightarrow> int list" where
  "be32_int w = [w div 16777216 mod 256, w div 65536 mod 256, w div 256 mod 256, w mod 256]"

definition PutUint64_int :: "int \<Rightarrow> int list" where
  "PutUint64_int v =
     [v div 72057594037927936 mod 256, v div 281474976710656 mod 256,
      v div 1099511627776 mod 256, v div 4294967296 mod 256, v div 16777216 mod 256,
      v div 65536 mod 256, v div 256 mod 256, v mod 256]"

definition sha_pad_int :: "int list \<Rightarrow> int list" where
  "sha_pad_int m = m @ [128] @ replicate ((119 - length m mod 64) mod 64) 0
                     @ PutUint64_int (int (8 * length m) mod 18446744073709551616)"

fun digest_int :: "int_state \<Rightarrow> int list" where
  "digest_int (a, b, c, d, e, f, g, h) =
     be32_int a @ be32_int b @ be32_int c @ be32_int d
       @ be32_int e @ be32_int f @ be32_int g @ be32_int h"

definition Sum256_int :: "int list \<Rightarrow> int list" where
  "Sum256_int m = digest_int (foldl compress_int H256_int (chunks 64 (sha_pad_int m)))"

definition hmac_key_int :: "int list \<Rightarrow> int list" where
  "hmac_key_int key =
     (let k = (if length key > 64 then Sum256_int key else key)
      in k @ replicate (64 - length k) 0)"

definition hmac_sha256_int :: "int list \<Rightarrow> int list \<Rightarrow> int list" where
  "hmac_sha256_int key msg =
     (let k = hmac_key_int key
      in Sum256_int (map (\<lambda>b. b XOR 92) k @ Sum256_int (map (\<lambda>b. b XOR 54) k @ msg)))"

fun uint_state :: "sha_state \<Rightarrow> int_state" where
  "uint_state (a, b, c, d, e, f, g, h) =
     (uint a, uint b, uint c, uint d, uint e, uint f, uint g, uint h)"

section \<open>Keyed-stream generators\<close>

text \<open>
  A generator is a struct holding the secret \<open>state\<close> and the block \<open>counter\<close>; the
  mutex that every method takes is not modelled (all calls below are sequential). A call
  of \<^verbatim>\<open>GenerateBytes\<close> returns what the Go method returns, the pair of the byte slice
  and the error value, or the run-time panic that ended it, together with the generator
  as the call left it.
\<close>

datatype panic = SliceBoundsOutOfRange | MakeSliceLenOutOfRange

text \<open>
  A value of Go's \<^verbatim>\<open>error\<close> interface: an error a callee returned, known by its
  message, or the error that the orchestrator makes of a recovered panic.
\<close>

datatype error = ErrorValue string | PanicOccurred panic

type_synonym 'g call = "(panic + byte list \<times> error option) \<times> 'g"

record KeyedState =
  state :: "byte list"
  counter :: u64

text \<open>
  \<^verbatim>\<open>copy(dst[off:], src)\<close> for \<open>off \<le> length dst\<close>: as many bytes as fit are
  overwritten, the length of \<open>dst\<close> stays.
\<close>

definition copy_into :: "'a list \<Rightarrow> nat \<Rightarrow> 'a list \<Rightarrow> 'a list" where
  "copy_into dst off src =
     (let k = min (length dst - off) (length src)
      in take off dst @ take k src @ drop (off + k) dst)"

subsection \<open>The drafts without reseeding\<close>

text \<open>
  The loop of \<^verbatim>\<open>GenerateBytes\<close> in \<^verbatim>\<open>crypto_csprng.go\<close>,
  \<^verbatim>\<open>multEntropy_prng.go\<close> and \<^verbatim>\<open>hybrid_prng.go\<close>: one HMAC block per
  iteration, keyed by the unchanged state, over the big-endian counter.
\<close>

function fill_blocks :: "'a KeyedState_scheme \<Rightarrow> nat \<Rightarrow> nat \<Rightarrow> byte list
    \<Rightarrow> byte list \<times> 'a KeyedState_scheme" where
  "fill_blocks w numBytes generated result =
     (if generated < numBytes then
        (let block = hmac_sha256 (state w) (PutUint64 (counter w));
             toCopy = (if numBytes - generated < length block
                       then numBytes - generated else length block);
             result' = copy_into result generated (take toCopy block)
         in fill_blocks (w\<lparr>counter := counter w + 1\<rparr>) numBytes (generated + toCopy) result')
      else (result, w))"
  by pat_completeness auto
termination
  by (relation "measure (\<lambda>(w, numBytes, generated, result). numBytes - generated)") auto

declare fill_blocks.simps [simp del]

text \<open>
  \<^verbatim>\<open>WeatherCSPRNG.GenerateBytes\<close> of \<^verbatim>\<open>crypto_csprng.go\<close>. The slice
  expression \<^verbatim>\<open>result[:32]\<close> needs \<open>32 \<le> cap(result)\<close>, and the capacity of
  \<^verbatim>\<open>make([]byte, numBytes)\<close> is \<open>numBytes\<close>; \<^verbatim>\<open>make\<close> itself panics on a
  negative length.
\<close>

definition WeatherCSPRNG_GenerateBytes :: "KeyedState \<Rightarrow> int \<Rightarrow> KeyedState call" where
  "WeatherCSPRNG_GenerateBytes w numBytes =
     (if numBytes < 0 then (Inl MakeSliceLenOutOfRange, w)
      else
        (let (result, w1) = fill_blocks w (nat numBytes) 0 (replicate (nat numBytes) 0)
         in if 32 \<le> length result
            then (Inr (result, None),
                  w1\<lparr>state := hmac_sha256 (state w1) (bytes ''update'' @ take 32 result)\<rparr>)
            else (Inl SliceBoundsOutOfRange, w1)))"

text \<open>\<^verbatim>\<open>multEntropyCSPRNG.GenerateBytes\<close> of \<^verbatim>\<open>multEntropy_prng.go\<close>: the same body.\<close>

definition multEntropyCSPRNG_GenerateBytes :: "KeyedState \<Rightarrow> int \<Rightarrow> KeyedState call" where
  "multEntropyCSPRNG_GenerateBytes c numBytes =
     (if numBytes < 0 then (Inl MakeSliceLenOutOfRange, c)
      else
        (let (result, c1) = fill_blocks c (nat numBytes) 0 (replicate (nat numBytes) 0)
         in if 32 \<le> length result
            then (Inr (result, None),
                  c1\<lparr>state := hmac_sha256 (state c1) (bytes ''update'' @ take 32 result)\<rparr>)
            else (Inl SliceBoundsOutOfRange, c1)))"

text \<open>
  \<^verbatim>\<open>HybridCSPRNG.GenerateBytes\<close> of \<^verbatim>\<open>hybrid_prng.go\<close>: the state update
  reads \<^verbatim>\<open>result[:min(32, len(result))]\<close>.
\<close>

definition HybridCSPRNG_GenerateBytes :: "KeyedState \<Rightarrow> int \<Rightarrow> KeyedState call" where
  "HybridCSPRNG_GenerateBytes h numBytes =
     (if numBytes < 0 then (Inl MakeSliceLenOutOfRange, h)
      else
        (let (result, h1) = fill_blocks h (nat numBytes) 0 (replicate (nat numBytes) 0)
         in (Inr (result, None),
             h1\<lparr>state := hmac_sha256 (state h1)
                            (bytes ''update'' @ take (min 32 (length result)) result)\<rparr>)))"

subsection \<open>The draft with reseeding\<close>

text \<open>
  \<^verbatim>\<open>weather_prng.go\<close>. Times are nanosecond readings of the clock; an HTTP request
  either fails in \<^verbatim>\<open>client.Get\<close>, or its body is read to the end, or
  \<^verbatim>\<open>io.ReadAll\<close> returns the bytes read so far together with an error. What the
  outside world answers during one reseed is the input \<open>reseed_env\<close>.
\<close>

datatype http_result = GetFailed | BodyRead "byte list" | BodyReadFailed "byte list"

record reseed_env =
  probe_start :: int
  probe_response :: http_result
  probe_duration :: int
  reseed_time :: int

record ReseedingState = KeyedState +
  bytesGenerated :: int
  lastReseed :: int

definition RESEED_INTERVAL :: int where
  "RESEED_INTERVAL = 10 * 60 * 1000000000"

definition RESEED_BYTE_INTERVAL :: int where
  "RESEED_BYTE_INTERVAL = 500 * 1024 * 1024"

text \<open>\<^verbatim>\<open>time.Since\<close>: the difference of two readings, saturating at the ends of int64.\<close>

definition Since :: "int \<Rightarrow> int \<Rightarrow> int" where
  "Since now t = max (- (2 ^ 63)) (min (2 ^ 63 - 1) (now - t))"

text \<open>The body as \<^verbatim>\<open>body, _ = io.ReadAll(resp.Body)\<close> leaves it; \<^verbatim>\<open>nil\<close> prints as the empty string.\<close>

definition body_ignoring_read_error :: "http_result \<Rightarrow> byte list" where
  "body_ignoring_read_error r =
     (case r of GetFailed \<Rightarrow> [] | BodyRead b \<Rightarrow> b | BodyReadFailed b \<Rightarrow> b)"

definition getWeatherEntropy :: "reseed_env \<Rightarrow> byte list" where
  "getWeatherEntropy env =
     Sum256 (body_ignoring_read_error (probe_response env) @ bytes ''|''
             @ bytes (FormatInt (probe_start env)) @ bytes ''|''
             @ bytes (FormatInt (probe_duration env)))"

definition reseed :: "reseed_env \<Rightarrow> ReseedingState \<Rightarrow> ReseedingState" where
  "reseed env w =
     w\<lparr>state := hmac_sha256 (state w) (getWeatherEntropy env),
       lastReseed := reseed_time env,
       bytesGenerated := 0\<rparr>"

definition NewWeatherCSPRNG :: "reseed_env \<Rightarrow> ReseedingState" where
  "NewWeatherCSPRNG env =
     reseed env \<lparr>state = [], counter = 0, bytesGenerated = 0, lastReseed = 0\<rparr>"

definition needs_reseed :: "int \<Rightarrow> ReseedingState \<Rightarrow> bool" where
  "needs_reseed now w \<longleftrightarrow>
     Since now (lastReseed w) > RESEED_INTERVAL \<or> bytesGenerated w > RESEED_BYTE_INTERVAL"

text \<open>The loop of this draft replaces the state after every block.\<close>

function rekey_blocks :: "'a KeyedState_scheme \<Rightarrow> nat \<Rightarrow> nat \<Rightarrow> byte list
    \<Rightarrow> byte list \<times> 'a KeyedState_scheme" where
  "rekey_blocks w numBytes generated result =
     (if generated < numBytes then
        (let block = hmac_sha256 (state w) (PutUint64 (counter w));
             toCopy = min (length block) (numBytes - generated);
             result' = copy_into result generated (take toCopy block)
         in rekey_blocks (w\<lparr>counter := counter w + 1, state := hmac_sha256 (state w) block\<rparr>)
              numBytes (generated + toCopy) result')
      else (result, w))"
  by pat_completeness auto
termination
  by (relation "measure (\<lambda>(w, numBytes, generated, result). numBytes - generated)") auto

declare rekey_blocks.simps [simp del]

text \<open>
  \<^verbatim>\<open>GenerateBytes\<close> is the reseed check followed by the generation proper;
  \<open>generate\<close> is everything after the check. \<open>now\<close> is the clock reading of the check.
\<close>

definition generate :: "ReseedingState \<Rightarrow> int \<Rightarrow> ReseedingState call" where
  "generate w numBytes =
     (if numBytes < 0 then (Inl MakeSliceLenOutOfRange, w)
      else
        (let (result, w1) = rekey_blocks w (nat numBytes) 0 (replicate (nat numBytes) 0)
         in (Inr (result, None), w1\<lparr>bytesGenerated := bytesGenerated w1 + numBytes\<rparr>)))"

definition GenerateBytes :: "int \<Rightarrow> reseed_env \<Rightarrow> ReseedingState \<Rightarrow> int \<Rightarrow> ReseedingState call" where
  "GenerateBytes now env w numBytes =
     generate (if needs_reseed now w then reseed env w else w) numBytes"

subsection \<open>Gathering entropy from three sources\<close>

text \<open>
  \<^verbatim>\<open>multEntropy_prng.go\<close>. One pass of \<^verbatim>\<open>gatherEntropy\<close> sees the answers of the
  weather and the market request, whether the request to the network probe failed and
  how long it took, and the clock. A Go string is the list of its bytes.
\<close>

record entropy_env =
  weather_response :: http_result
  market_response :: http_result
  network_failed :: bool
  network_duration :: int
  gather_time :: int

definition getWeather :: "entropy_env \<Rightarrow> byte list" where
  "getWeather env =
     (case weather_response env of
        GetFailed \<Rightarrow> bytes ''weather_error''
      | BodyRead body \<Rightarrow> body
      | BodyReadFailed body \<Rightarrow> body)"

definition getMarket :: "entropy_env \<Rightarrow> byte list" where
  "getMarket env =
     (case market_response env of
        GetFailed \<Rightarrow> bytes ''market_error''
      | BodyRead body \<Rightarrow> body
      | BodyReadFailed body \<Rightarrow> body)"

definition getNetwork :: "entropy_env \<Rightarrow> byte list" where
  "getNetwork env =
     (if network_failed env then bytes ''network_error''
      else bytes (FormatInt (network_duration env)))"

text \<open>The string that \<^verbatim>\<open>fmt.Sprintf("%s|%s|%s|%d", ...)\<close> builds, and its hash.\<close>

definition entropy_string :: "entropy_env \<Rightarrow> byte list" where
  "entropy_string env =
     getWeather env @ bytes ''|'' @ getMarket env @ bytes ''|'' @ getNetwork env @ bytes ''|''
       @ bytes (FormatInt (gather_time env))"

definition gatherEntropy :: "entropy_env \<Rightarrow> byte list" where
  "gatherEntropy env = Sum256 (entropy_string env)"

text \<open>
  The constructor: the zero value of the struct (a \<^verbatim>\<open>nil\<close> state, counter 0), whose
  state is then replaced by the gathered entropy.
\<close>

definition multEntropyCSPRNG_zero :: KeyedState where
  "multEntropyCSPRNG_zero = \<lparr>state = [], counter = 0\<rparr>"

definition NewmultEntropyCSPRNG :: "entropy_env \<Rightarrow> KeyedState" where
  "NewmultEntropyCSPRNG env = multEntropyCSPRNG_zero\<lparr>state := gatherEntropy env\<rparr>"

subsection \<open>Gathering entropy in the reseeding draft\<close>

text \<open>
  The later draft of \<^verbatim>\<open>multEntropyCSPRNG\<close> (with \<^verbatim>\<open>RESEED_INTERVAL\<close>, in
  \<^verbatim>\<open>src/unnamed\<close>). Its struct has the fields of \<open>ReseedingState\<close>. The weather and
  the market source return a fixed string also when the reading of the body fails. The
  network source probes four endpoints concurrently; \<open>endpoint_latencies\<close> lists what
  the four probes gave in the order in which they finished, \<open>None\<close> for a failed request
  and the measured nanoseconds otherwise.
\<close>

record gather_env =
  weather_answer :: http_result
  market_answer :: http_result
  endpoint_latencies :: "int option list"
  gathered_at :: int
  reseeded_at :: int

definition getWeather_reseeding :: "gather_env \<Rightarrow> byte list" where
  "getWeather_reseeding env =
     (case weather_answer env of
        GetFailed \<Rightarrow> bytes ''weather_error''
      | BodyRead body \<Rightarrow> body
      | BodyReadFailed body \<Rightarrow> bytes ''weather_read_error'')"

definition getMarket_reseeding :: "gather_env \<Rightarrow> byte list" where
  "getMarket_reseeding env =
     (case market_answer env of
        GetFailed \<Rightarrow> bytes ''market_error''
      | BodyRead body \<Rightarrow> body
      | BodyReadFailed body \<Rightarrow> bytes ''market_read_error'')"

text \<open>\<^verbatim>\<open>strings.Join\<close>.\<close>

fun Join :: "string list \<Rightarrow> string \<Rightarrow> string" where
  "Join [] sep = []"
| "Join [x] sep = x"
| "Join (x # y # xs) sep = x @ sep @ Join (y # xs) sep"

definition getNetworkJitter :: "gather_env \<Rightarrow> byte list" where
  "getNetworkJitter env =
     (let latencies = concat (map (\<lambda>r. case r of None \<Rightarrow> [] | Some d \<Rightarrow> [FormatInt d])
                                (endpoint_latencies env))
      in if length latencies = 0 then bytes ''network_error_all''
         else bytes (Join latencies '',''))"

definition entropy_string_reseeding :: "gather_env \<Rightarrow> byte list" where
  "entropy_string_reseeding env =
     getWeather_reseeding env @ bytes ''|'' @ getMarket_reseeding env @ bytes ''|''
       @ getNetworkJitter env @ bytes ''|'' @ bytes (FormatInt (gathered_at env))"

definition gatherEntropy_reseeding :: "gather_env \<Rightarrow> byte list" where
  "gatherEntropy_reseeding env = Sum256 (entropy_string_reseeding env)"

definition multEntropyCSPRNG_reseed :: "gather_env \<Rightarrow> ReseedingState \<Rightarrow> ReseedingState" where
  "multEntropyCSPRNG_reseed env c =
     c\<lparr>state := hmac_sha256 (state c) (gatherEntropy_reseeding env),
       lastReseed := reseeded_at env,
       bytesGenerated := 0\<rparr>"

text \<open>A source has failed when its request failed or the reading of its body did.\<close>

definition source_failed :: "http_result \<Rightarrow> bool" where
  "source_failed r = (case r of BodyRead body \<Rightarrow> False | _ \<Rightarrow> True)"

text \<open>
  What a call handed back to its caller: the bytes, when it returned with a \<^verbatim>\<open>nil\<close>
  error; nothing when it panicked or returned an error.
\<close>

definition returned :: "'g call \<Rightarrow> byte list option" where
  "returned c = (case fst c of Inl p \<Rightarrow> None
                 | Inr (bs, e) \<Rightarrow> (case e of None \<Rightarrow> Some bs | Some x \<Rightarrow> None))"

section \<open>Statistical analysis\<close>

text \<open>
  A \<^verbatim>\<open>float64\<close> is a finite number or one of the three special values of IEEE 754.
  Rounding is not modelled: a finite value is the real number that exact arithmetic
  gives, and the zero is unsigned (every divisor in the source is a converted count,
  length or duration). Addition, division and comparison treat the special values as
  IEEE 754 does: \<open>0 / 0\<close> is \<open>NaN\<close>, a comparison with \<open>NaN\<close> is false.
\<close>

datatype float64 = Fin real | PosInf | NegInf | NaN

fun fadd :: "float64 \<Rightarrow> float64 \<Rightarrow> float64" where
  "fadd (Fin a) (Fin b) = Fin (a + b)"
| "fadd (Fin a) y = y"
| "fadd x (Fin b) = x"
| "fadd x y = (if x = y then x else NaN)"

fun fdivide :: "float64 \<Rightarrow> float64 \<Rightarrow> float64" where
  "fdivide (Fin a) (Fin b) =
     (if b \<noteq> 0 then Fin (a / b) else if a = 0 then NaN else if 0 < a then PosInf else NegInf)"
| "fdivide NaN y = NaN"
| "fdivide x NaN = NaN"
| "fdivide (Fin a) y = Fin 0"
| "fdivide PosInf (Fin b) = (if 0 \<le> b then PosInf else NegInf)"
| "fdivide NegInf (Fin b) = (if 0 \<le> b then NegInf else PosInf)"
| "fdivide x y = NaN"

fun fless :: "float64 \<Rightarrow> float64 \<Rightarrow> bool" where
  "fless (Fin a) (Fin b) = (a < b)"
| "fless NaN y = False"
| "fless x NaN = False"
| "fless NegInf y = (y \<noteq> NegInf)"
| "fless x PosInf = (x \<noteq> PosInf)"
| "fless x y = False"

subsection \<open>The functions of \<^verbatim>\<open>main.go\<close>\<close>

text \<open>
  A read of a Go map gives the zero value for a missing key. The two functions below divide
  only by values that a preceding check has made positive, so their results are finite
  and typed \<open>real\<close>. \<^verbatim>\<open>range counts\<close> visits the keys that are present, in an
  unspecified order; the model visits them in increasing order (the sum of real numbers
  does not depend on it).
\<close>

definition lookup0 :: "('k \<rightharpoonup> int) \<Rightarrow> 'k \<Rightarrow> int" where
  "lookup0 m k = (case m k of None \<Rightarrow> 0 | Some v \<Rightarrow> v)"

definition count_bytes :: "byte list \<Rightarrow> (byte \<rightharpoonup> int)" where
  "count_bytes data = foldl (\<lambda>counts b. counts(b \<mapsto> lookup0 counts b + 1)) Map.empty data"

definition all_bytes :: "byte list" where
  "all_bytes = map word_of_nat [0..<256]"

definition calculateChiSquare :: "byte list \<Rightarrow> real" where
  "calculateChiSquare data =
     (let counts = count_bytes data
      in if length data = 0 then 0
         else
           (let expected = real (length data) / 256
            in foldl (\<lambda>chiSquareStat i.
                        let observed = real_of_int (lookup0 counts (word_of_nat i));
                            diff = observed - expected
                        in chiSquareStat + (diff * diff) / expected)
                 0 [0..<256]))"

definition calculateShannonEntropy :: "byte list \<Rightarrow> real" where
  "calculateShannonEntropy data =
     (if length data = 0 then 0
      else
        (let counts = count_bytes data;
             dataLen = real (length data)
         in foldl (\<lambda>entropy b.
                     case counts b of
                       None \<Rightarrow> entropy
                     | Some count \<Rightarrow>
                         if count > 0
                         then (let p = real_of_int count / dataLen in entropy - p * log 2 p)
                         else entropy)
              0 all_bytes))"

text \<open>
  The loop of \<^verbatim>\<open>nistFrequencyMonobitTest\<close>: the sum \<open>s\<close>, \<open>+1\<close> for every 1 bit and
  \<open>-1\<close> for every 0 bit. The p-value that the function then derives from \<open>s\<close> is a
  \<^verbatim>\<open>float64\<close> that \<^verbatim>\<open>math.Sqrt\<close>, two rounded divisions and \<^verbatim>\<open>math.Erfc\<close>
  produce; that part of the function is not modelled.
\<close>

definition monobit_sum :: "byte list \<Rightarrow> int" where
  "monobit_sum data =
     foldl (\<lambda>s b. foldl (\<lambda>s i. if drop_bit i b AND 1 = 1 then s + 1 else s - 1) s [0..<8]) 0 data"

text \<open>
  The sum as the specification words it: over the bit sequence of the buffer, \<open>+1\<close> for a
  bit that is 1 and \<open>-1\<close> for a bit that is 0.
\<close>

definition monobit_S :: "byte list \<Rightarrow> int" where
  "monobit_S data = (\<Sum>b\<leftarrow>data. \<Sum>i\<leftarrow>[0..<8]. if bit b i then 1 else - 1)"

subsection \<open>The analysis of the concurrent benchmark\<close>

record Analysis =
  Length :: int
  Mean :: float64
  ChiSquare :: float64
  MinFreq :: int
  MaxFreq :: int
  FreqRange :: int
  ShannonEntropy :: float64
  Autocorrelation :: float64

text \<open>The zero value \<^verbatim>\<open>Analysis{}\<close>.\<close>

definition Analysis_zero :: Analysis where
  "Analysis_zero =
     \<lparr>Length = 0, Mean = Fin 0, ChiSquare = Fin 0, MinFreq = 0, MaxFreq = 0, FreqRange = 0,
      ShannonEntropy = Fin 0, Autocorrelation = Fin 0\<rparr>"

text \<open>The slice \<^verbatim>\<open>byteCounts\<close> of 256 counters after the counting loop.\<close>

definition count_slice :: "byte list \<Rightarrow> int list" where
  "count_slice data =
     foldl (\<lambda>byteCounts b. byteCounts[unat b := byteCounts ! unat b + 1]) (replicate 256 0) data"

definition basicAnalysis :: "byte list \<Rightarrow> Analysis" where
  "basicAnalysis data =
     (if length data = 0 then Analysis_zero
      else
        (let byteCounts = count_slice data;
             expectedFreq = real (length data) / 256;
             chiSquare = foldl (\<lambda>chi count.
                                  let diff = real_of_int count - expectedFreq
                                  in chi + (diff * diff) / expectedFreq)
                           0 byteCounts;
             sum = foldl (\<lambda>sum b. sum + int (unat b)) 0 data;
             mean = real_of_int sum / real (length data);
             minFreq = foldl (\<lambda>m i. if byteCounts ! i < m then byteCounts ! i else m)
                         (byteCounts ! 0) [0..<256];
             maxFreq = foldl (\<lambda>m i. if byteCounts ! i > m then byteCounts ! i else m)
                         (byteCounts ! 0) [0..<256];
             freqRange = maxFreq - minFreq;
             shannon = foldl (\<lambda>shannon count.
                                if count > 0
                                then (let prob = real_of_int count / real (length data)
                                      in shannon - prob * log 2 prob)
                                else shannon)
                         0 byteCounts;
             sampleSize = (if length data > 50000 then 50000 else length data);
             matches = foldl (\<lambda>matches i. if data ! i = data ! (i - 1) then matches + 1 else matches)
                         (0 :: int) [1..<sampleSize];
             autocorr = fdivide (Fin (real_of_int matches)) (Fin (real_of_int (int sampleSize - 1)))
         in \<lparr>Length = int (length data), Mean = Fin mean, ChiSquare = Fin chiSquare,
             MinFreq = minFreq, MaxFreq = maxFreq, FreqRange = freqRange,
             ShannonEntropy = Fin shannon, Autocorrelation = autocorr\<rparr>))"

section \<open>The concurrent benchmark\<close>

text \<open>
  Durations are nanoseconds. What the generator does is an input: a trial of
  \<^verbatim>\<open>runSingleTest\<close> sees it through the observations of its calls, \<open>obs k\<close> being the
  time measured for call number \<open>k\<close> of the trial and what the call did, a panic or the
  returned slice and error.
\<close>

type_synonym observation = "int \<times> (panic + byte list \<times> error option)"

definition Seconds :: "int \<Rightarrow> real" where
  "Seconds d = real_of_int d / 1000000000"

definition Microsecond :: int where
  "Microsecond = 1000"

definition Millisecond :: int where
  "Millisecond = 1000000"

definition Hour :: int where
  "Hour = 3600 * 1000000000"

record TestResult =
  Name :: string
  TestRun :: int
  Duration :: int
  Throughput :: float64
  Analysis :: Analysis
  Filename :: string
  Error :: "error option"

record AggregatedResult =
  AggName :: string
  TotalTests :: int
  SuccessfulTests :: int
  FailedTests :: int
  AvgDuration :: int
  MinDuration :: int
  MaxDuration :: int
  AvgThroughput :: float64
  MinThroughput :: float64
  MaxThroughput :: float64
  AvgAnalysis :: Analysis
  TotalDataGenerated :: int

text \<open>
  The progress tracker: \<^verbatim>\<open>increment\<close> adds one to \<open>completed\<close> and, when more than
  five seconds have passed since the last progress line, prints one (the console is not
  modelled) and notes the time.
\<close>

record ProgressTracker =
  completed :: int
  total :: int
  lastPrint :: int

definition increment :: "int \<Rightarrow> ProgressTracker \<Rightarrow> ProgressTracker" where
  "increment now pt =
     (let pt1 = pt\<lparr>completed := completed pt + 1\<rparr>
      in if now - lastPrint pt1 > 5 * 1000000000 then pt1\<lparr>lastPrint := now\<rparr> else pt1)"

text \<open>
  \<^verbatim>\<open>performanceTest\<close> returns the data (\<^verbatim>\<open>nil\<close> after an error), the duration,
  the throughput in MB/s and the error.
\<close>

type_synonym measurement = "byte list option \<times> int \<times> float64 \<times> error option"

definition performanceTest :: "observation \<Rightarrow> int \<Rightarrow> panic + measurement" where
  "performanceTest ob testSize =
     (case snd ob of
        Inl p \<Rightarrow> Inl p
      | Inr (data, err) \<Rightarrow>
          (case err of
             Some e \<Rightarrow> Inr (None, 0, Fin 0, Some e)
           | None \<Rightarrow>
               (let duration = (if fst ob < Microsecond then Microsecond else fst ob);
                    throughputMBs =
                      fdivide (fdivide (Fin (real_of_int testSize)) (Fin (Seconds duration)))
                        (Fin (1024 * 1024))
                in Inr (Some data, duration, throughputMBs, None))))"

text \<open>
  The name of the sample file. \<^verbatim>\<open>strings.ToLower\<close> is modelled on ASCII letters, which
  is all that the generator names of the repository contain.
\<close>

definition ToLower :: "string \<Rightarrow> string" where
  "ToLower s = map (\<lambda>c. if 65 \<le> (of_char c :: nat) \<and> (of_char c :: nat) \<le> 90
                         then char_of ((of_char c :: nat) + 32) else c) s"

definition sample_filename :: "string \<Rightarrow> int \<Rightarrow> string" where
  "sample_filename name testRun =
     ''output/'' @ ToLower (map (\<lambda>c. if c = CHR '' '' then CHR ''_'' else c) name)
       @ ''_sample_run'' @ FormatInt testRun @ ''.bin''"

text \<open>
  What a trial changes: the results channel, the progress tracker, the time slept and the
  files written.
\<close>

record world =
  resultsChannel :: "TestResult list"
  tracker :: ProgressTracker
  slept :: "int list"
  written :: "(string \<times> byte list) list"

definition maxRetries :: nat where
  "maxRetries = 2"

text \<open>
  The retry loop, from \<open>attempt\<close> on. It returns the panic that ended it, if any, the
  variables \<^verbatim>\<open>data, duration, throughput, err\<close> as the last completed attempt set
  them, and the time slept.
\<close>

function retry_loop :: "(nat \<Rightarrow> observation) \<Rightarrow> int \<Rightarrow> nat \<Rightarrow> measurement \<Rightarrow> int list
    \<Rightarrow> panic option \<times> measurement \<times> int list" where
  "retry_loop obs testSize attempt vars sl =
     (if attempt \<le> maxRetries then
        (case performanceTest (obs attempt) testSize of
           Inl p \<Rightarrow> (Some p, vars, sl)
         | Inr vars' \<Rightarrow>
             if snd (snd (snd vars')) = None then (None, vars', sl)
             else if attempt < maxRetries
             then retry_loop obs testSize (attempt + 1) vars'
                    (sl @ [(int attempt + 1) * 100 * Millisecond])
             else retry_loop obs testSize (attempt + 1) vars' sl)
      else (None, vars, sl))"
  by pat_completeness auto
termination
  by (relation "measure (\<lambda>(obs, testSize, attempt, vars, sl). Suc maxRetries - attempt)") auto

declare retry_loop.simps [simp del]

text \<open>
  \<^verbatim>\<open>runSingleTest\<close>: the retry loop, the saving of a sample after a success in one of
  the first ten runs, and the deferred function, which turns a recovered panic into the
  error of the trial, builds the result, sends it and advances the tracker. \<open>now\<close> is the
  clock reading in \<^verbatim>\<open>increment\<close>.
\<close>

definition runSingleTest :: "string \<Rightarrow> (nat \<Rightarrow> observation) \<Rightarrow> int \<Rightarrow> int \<Rightarrow> int \<Rightarrow> world \<Rightarrow> world" where
  "runSingleTest name obs testSize testRun now w =
     (case retry_loop obs testSize 0 (None, 0, Fin 0, None) (slept w) of
        (pan, (data, duration, throughput, err), sl) \<Rightarrow>
          (let files = (if pan = None \<and> err = None \<and> testRun \<le> 10
                        then written w @ [(sample_filename name testRun,
                                           take 10000 (case data of None \<Rightarrow> [] | Some d \<Rightarrow> d))]
                        else written w);
               err' = (case pan of Some p \<Rightarrow> Some (PanicOccurred p) | None \<Rightarrow> err);
               analysis = (case data of None \<Rightarrow> Analysis_zero | Some d \<Rightarrow> basicAnalysis d);
               result = \<lparr>Name = name, TestRun = testRun, Duration = duration,
                         Throughput = throughput, Analysis = analysis,
                         Filename = sample_filename name testRun, Error = err'\<rparr>
           in w\<lparr>resultsChannel := resultsChannel w @ [result],
                tracker := increment now (tracker w),
                slept := sl,
                written := files\<rparr>))"

text \<open>An attempt that returned an error, and one that returned data without an error.\<close>

definition returned_error :: "observation \<Rightarrow> bool" where
  "returned_error ob = (case snd ob of Inl p \<Rightarrow> False | Inr (data, err) \<Rightarrow> err \<noteq> None)"

definition returned_ok :: "observation \<Rightarrow> bool" where
  "returned_ok ob = (case snd ob of Inl p \<Rightarrow> False | Inr (data, err) \<Rightarrow> err = None)"

definition attempt_error :: "observation \<Rightarrow> error option" where
  "attempt_error ob = (case snd ob of Inl p \<Rightarrow> Some (PanicOccurred p) | Inr (data, err) \<Rightarrow> err)"

subsection \<open>Aggregation\<close>

text \<open>Go's integer division truncates towards zero; division by zero panics and is guarded in the source.\<close>

definition quot :: "int \<Rightarrow> int \<Rightarrow> int" where
  "quot a b = sgn a * sgn b * (\<bar>a\<bar> div \<bar>b\<bar>)"

text \<open>The entry made for a name that is seen for the first time.\<close>

definition new_aggregate :: "string \<Rightarrow> AggregatedResult" where
  "new_aggregate name =
     \<lparr>AggName = name, TotalTests = 0, SuccessfulTests = 0, FailedTests = 0,
      AvgDuration = 0, MinDuration = Hour, MaxDuration = 0,
      AvgThroughput = Fin 0, MinThroughput = Fin 1000000000, MaxThroughput = Fin 0,
      AvgAnalysis = Analysis_zero, TotalDataGenerated = 0\<rparr>"

text \<open>The body of the first loop of \<^verbatim>\<open>aggregateResults\<close>.\<close>

definition tally :: "(string \<rightharpoonup> AggregatedResult) \<Rightarrow> TestResult \<Rightarrow> (string \<rightharpoonup> AggregatedResult)" where
  "tally aggregated result =
     (let name = Name result;
          agg = (case aggregated name of None \<Rightarrow> new_aggregate name | Some a \<Rightarrow> a);
          agg1 = agg\<lparr>TotalTests := TotalTests agg + 1\<rparr>;
          agg2 =
            (if Error result = None then
               (let a1 = agg1\<lparr>SuccessfulTests := SuccessfulTests agg1 + 1,
                             TotalDataGenerated :=
                               TotalDataGenerated agg1 + Length (Analysis result)\<rparr>;
                    a2 = (if Duration result < MinDuration a1
                          then a1\<lparr>MinDuration := Duration result\<rparr> else a1);
                    a3 = (if Duration result > MaxDuration a2
                          then a2\<lparr>MaxDuration := Duration result\<rparr> else a2);
                    a4 = (if fless (Throughput result) (MinThroughput a3)
                          then a3\<lparr>MinThroughput := Throughput result\<rparr> else a3)
                in if fless (MaxThroughput a4) (Throughput result)
                   then a4\<lparr>MaxThroughput := Throughput result\<rparr> else a4)
             else agg1\<lparr>FailedTests := FailedTests agg1 + 1\<rparr>)
      in aggregated(name \<mapsto> agg2))"

text \<open>
  The body of the second loop: the averages over the successful results of one name.
  The order in which \<^verbatim>\<open>range aggregated\<close> visits the names does not matter, every
  entry is rewritten from itself and the results alone.
\<close>

definition averages :: "TestResult list \<Rightarrow> string \<Rightarrow> AggregatedResult \<Rightarrow> AggregatedResult" where
  "averages results name agg =
     (if SuccessfulTests agg > 0 then
        (let ok = filter (\<lambda>r. Name r = name \<and> Error r = None) results;
             successCount = int (length ok);
             n = Fin (real_of_int successCount)
         in if successCount > 0 then
              agg\<lparr>AvgDuration := quot (foldl (\<lambda>t r. t + Duration r) 0 ok) successCount,
                  AvgThroughput := fdivide (foldl (\<lambda>t r. fadd t (Throughput r)) (Fin 0) ok) n,
                  AvgAnalysis :=
                    \<lparr>Length = 0,
                     Mean = fdivide (foldl (\<lambda>t r. fadd t (Mean (Analysis r))) (Fin 0) ok) n,
                     ChiSquare =
                       fdivide (foldl (\<lambda>t r. fadd t (ChiSquare (Analysis r))) (Fin 0) ok) n,
                     MinFreq = quot (foldl (\<lambda>t r. t + MinFreq (Analysis r)) 0 ok) successCount,
                     MaxFreq = quot (foldl (\<lambda>t r. t + MaxFreq (Analysis r)) 0 ok) successCount,
                     FreqRange =
                       quot (foldl (\<lambda>t r. t + FreqRange (Analysis r)) 0 ok) successCount,
                     ShannonEntropy =
                       fdivide (foldl (\<lambda>t r. fadd t (ShannonEntropy (Analysis r))) (Fin 0) ok) n,
                     Autocorrelation =
                       fdivide (foldl (\<lambda>t r. fadd t (Autocorrelation (Analysis r))) (Fin 0) ok) n\<rparr>\<rparr>
            else agg)
      else agg)"

definition aggregateResults :: "TestResult list \<Rightarrow> (string \<rightharpoonup> AggregatedResult)" where
  "aggregateResults results =
     (let aggregated = foldl tally Map.empty results
      in (\<lambda>name. map_option (averages results name) (aggregated name)))"

section \<open>Properties of the generators\<close>

subsection \<open>Properties of the two loops\<close>

lemma length_copy_into [simp]: "length (copy_into dst off src) = length dst"
  by (auto simp: copy_into_def Let_def min_def)

lemma take_copy_into: "g \<le> off \<Longrightarrow> take g (copy_into dst off src) = take g dst"
  by (simp add: copy_into_def Let_def min_def)

lemma fill_blocks_step:
  "g < n \<Longrightarrow> fill_blocks w n g res =
     fill_blocks (w\<lparr>counter := counter w + 1\<rparr>) n (g + min 32 (n - g))
       (copy_into res g (take (min 32 (n - g)) (hmac_sha256 (state w) (PutUint64 (counter w)))))"
  by (subst fill_blocks.simps) (simp add: Let_def min_def)

lemma fill_blocks_done: "\<not> g < n \<Longrightarrow> fill_blocks w n g res = (res, w)"
  by (subst fill_blocks.simps) simp

lemma blocks_left: "g < n \<Longrightarrow> (n - g + 31) div 32 = Suc ((n - (g + min 32 (n - g)) + 31) div 32)"
  for g n :: nat
  by (auto simp: min_def)

lemma loop_progress: "g < n \<Longrightarrow> n - (g + min 32 (n - g)) < n - g"
  for g n :: nat
  by (auto simp: min_def)

lemma length_fill_blocks [simp]:
  "length (fst (fill_blocks w n g res)) = length res"
proof (induction "n - g" arbitrary: w g res rule: less_induct)
  case less
  show ?case
  proof (cases "g < n")
    case True
    then have "n - (g + min 32 (n - g)) < n - g" by (rule loop_progress)
    from less [OF this] True show ?thesis by (simp add: fill_blocks_step)
  next
    case False
    then show ?thesis by (simp add: fill_blocks_done)
  qed
qed

lemma state_fill_blocks [simp]:
  "state (snd (fill_blocks w n g res)) = state w"
proof (induction "n - g" arbitrary: w g res rule: less_induct)
  case less
  show ?case
  proof (cases "g < n")
    case True
    then have "n - (g + min 32 (n - g)) < n - g" by (rule loop_progress)
    from less [OF this] True show ?thesis by (simp add: fill_blocks_step)
  next
    case False
    then show ?thesis by (simp add: fill_blocks_done)
  qed
qed

lemma counter_fill_blocks:
  "counter (snd (fill_blocks w n g res)) = counter w + word_of_nat ((n - g + 31) div 32)"
proof (induction "n - g" arbitrary: w g res rule: less_induct)
  case less
  show ?case
  proof (cases "g < n")
    case True
    then have "n - (g + min 32 (n - g)) < n - g" by (rule loop_progress)
    from less [OF this] True
    have "counter (snd (fill_blocks w n g res))
          = counter w + 1 + word_of_nat ((n - (g + min 32 (n - g)) + 31) div 32)"
      by (simp add: fill_blocks_step)
    also have "\<dots> = counter w + word_of_nat (Suc ((n - (g + min 32 (n - g)) + 31) div 32))"
      by simp
    finally show ?thesis
      by (simp only: blocks_left [OF True])
  next
    case False
    then show ?thesis by (simp add: fill_blocks_done)
  qed
qed

lemma take_fill_blocks:
  "k \<le> g \<Longrightarrow> take k (fst (fill_blocks w n g res)) = take k res"
proof (induction "n - g" arbitrary: w g res rule: less_induct)
  case less
  show ?case
  proof (cases "g < n")
    case True
    then have "n - (g + min 32 (n - g)) < n - g" by (rule loop_progress)
    from less(1) [OF this] less(2) True show ?thesis
      by (simp add: fill_blocks_step take_copy_into)
  next
    case False
    then show ?thesis by (simp add: fill_blocks_done)
  qed
qed

lemma first_block_fill_blocks:
  assumes "32 \<le> n" "length res = n"
  shows "take 32 (fst (fill_blocks w n 0 res)) = hmac_sha256 (state w) (PutUint64 (counter w))"
proof -
  have "take 32 (fst (fill_blocks w n 0 res))
        = take 32 (copy_into res 0 (hmac_sha256 (state w) (PutUint64 (counter w))))"
    using assms by (simp add: fill_blocks_step take_fill_blocks)
  also have "\<dots> = hmac_sha256 (state w) (PutUint64 (counter w))"
    using assms by (simp add: copy_into_def Let_def min_def)
  finally show ?thesis .
qed


lemma rekey_blocks_step:
  "g < n \<Longrightarrow> rekey_blocks w n g res =
     rekey_blocks (w\<lparr>counter := counter w + 1,
                      state := hmac_sha256 (state w) (hmac_sha256 (state w) (PutUint64 (counter w)))\<rparr>)
       n (g + min 32 (n - g))
       (copy_into res g (take (min 32 (n - g)) (hmac_sha256 (state w) (PutUint64 (counter w)))))"
  by (subst rekey_blocks.simps) (simp add: Let_def min_def)

lemma rekey_blocks_done: "\<not> g < n \<Longrightarrow> rekey_blocks w n g res = (res, w)"
  by (subst rekey_blocks.simps) simp

lemma length_rekey_blocks [simp]:
  "length (fst (rekey_blocks w n g res)) = length res"
proof (induction "n - g" arbitrary: w g res rule: less_induct)
  case less
  show ?case
  proof (cases "g < n")
    case True
    then have "n - (g + min 32 (n - g)) < n - g" by (rule loop_progress)
    from less [OF this] True show ?thesis by (simp add: rekey_blocks_step)
  next
    case False
    then show ?thesis by (simp add: rekey_blocks_done)
  qed
qed

lemma rekey_blocks_frame:
  assumes "\<And>v c k. f (v\<lparr>counter := c, state := k\<rparr>) = f v"
  shows "f (snd (rekey_blocks w n g res)) = f w"
proof (induction "n - g" arbitrary: w g res rule: less_induct)
  case less
  show ?case
  proof (cases "g < n")
    case True
    then have "n - (g + min 32 (n - g)) < n - g" by (rule loop_progress)
    from less [OF this] True show ?thesis by (simp add: rekey_blocks_step assms)
  next
    case False
    then show ?thesis by (simp add: rekey_blocks_done)
  qed
qed

lemma bytesGenerated_rekey_blocks [simp]:
  "bytesGenerated (snd (rekey_blocks w n g res)) = bytesGenerated w"
  by (rule rekey_blocks_frame) simp

lemma lastReseed_rekey_blocks [simp]:
  "lastReseed (snd (rekey_blocks w n g res)) = lastReseed w"
  by (rule rekey_blocks_frame) simp

lemma counter_rekey_blocks:
  "counter (snd (rekey_blocks w n g res)) = counter w + word_of_nat ((n - g + 31) div 32)"
proof (induction "n - g" arbitrary: w g res rule: less_induct)
  case less
  show ?case
  proof (cases "g < n")
    case True
    then have "n - (g + min 32 (n - g)) < n - g" by (rule loop_progress)
    from less [OF this] True
    have "counter (snd (rekey_blocks w n g res))
          = counter w + 1 + word_of_nat ((n - (g + min 32 (n - g)) + 31) div 32)"
      by (simp add: rekey_blocks_step)
    also have "\<dots> = counter w + word_of_nat (Suc ((n - (g + min 32 (n - g)) + 31) div 32))"
      by simp
    finally show ?thesis
      by (simp only: blocks_left [OF True])
  next
    case False
    then show ?thesis by (simp add: rekey_blocks_done)
  qed
qed

lemma take_rekey_blocks:
  "k \<le> g \<Longrightarrow> take k (fst (rekey_blocks w n g res)) = take k res"
proof (induction "n - g" arbitrary: w g res rule: less_induct)
  case less
  show ?case
  proof (cases "g < n")
    case True
    then have "n - (g + min 32 (n - g)) < n - g" by (rule loop_progress)
    from less(1) [OF this] less(2) True show ?thesis
      by (simp add: rekey_blocks_step take_copy_into)
  next
    case False
    then show ?thesis by (simp add: rekey_blocks_done)
  qed
qed

lemma first_block_rekey_blocks:
  assumes "32 \<le> n" "length res = n"
  shows "take 32 (fst (rekey_blocks w n 0 res)) = hmac_sha256 (state w) (PutUint64 (counter w))"
proof -
  have "take 32 (fst (rekey_blocks w n 0 res))
        = take 32 (copy_into res 0 (hmac_sha256 (state w) (PutUint64 (counter w))))"
    using assms by (simp add: rekey_blocks_step take_rekey_blocks)
  also have "\<dots> = hmac_sha256 (state w) (PutUint64 (counter w))"
    using assms by (simp add: copy_into_def Let_def min_def)
  finally show ?thesis .
qed

subsection \<open>Length of the output\<close>

text \<open>
  Claim C1. \<^verbatim>\<open>GenerateBytes(n)\<close> is to return exactly \<open>n\<close> bytes, without failing or
  panicking, for every \<open>n \<ge> 0\<close> and every keyed-stream variant. The drafts of
  \<^verbatim>\<open>crypto_csprng.go\<close> and \<^verbatim>\<open>multEntropy_prng.go\<close> do not: their state update
  slices \<^verbatim>\<open>result[:32]\<close>, so every request of fewer than 32 bytes ends in the
  run-time panic "slice bounds out of range" after the loop has run. The theorem
  evaluates both at every such length.
\<close>

theorem short_request_panics:
  assumes "0 \<le> n" "n < 32"
  shows "fst (WeatherCSPRNG_GenerateBytes w n) = Inl SliceBoundsOutOfRange \<and>
         fst (multEntropyCSPRNG_GenerateBytes w n) = Inl SliceBoundsOutOfRange"
proof -
  obtain r w1 where r: "fill_blocks w (nat n) 0 (replicate (nat n) 0) = (r, w1)"
    by (cases "fill_blocks w (nat n) 0 (replicate (nat n) 0)")
  have "length (fst (fill_blocks w (nat n) 0 (replicate (nat n) 0))) = nat n" by simp
  with r have "length r = nat n" by simp
  with assms r show ?thesis
    by (simp add: WeatherCSPRNG_GenerateBytes_def multEntropyCSPRNG_GenerateBytes_def)
qed

theorem short_request_panics_witness:
  "(0::int) \<le> 16 \<and> (16::int) < 32 \<and>
   fst (WeatherCSPRNG_GenerateBytes \<lparr>state = replicate 32 0, counter = 0\<rparr> 16)
     = Inl SliceBoundsOutOfRange \<and>
   fst (multEntropyCSPRNG_GenerateBytes \<lparr>state = replicate 32 0, counter = 0\<rparr> 16)
     = Inl SliceBoundsOutOfRange"
  using short_request_panics [of 16 "\<lparr>state = replicate 32 0, counter = 0\<rparr>"] by simp

text \<open>
  From 32 bytes on the two drafts do return \<open>n\<close> bytes, and the draft of
  \<^verbatim>\<open>hybrid_prng.go\<close>, which slices \<^verbatim>\<open>result[:min(32, len(result))]\<close>, returns
  \<open>n\<close> bytes for every \<open>n \<ge> 0\<close>.
\<close>

lemma WeatherCSPRNG_returns_n_bytes:
  assumes "32 \<le> n"
  shows "map_option length (returned (WeatherCSPRNG_GenerateBytes w n)) = Some (nat n) \<and>
         map_option length (returned (multEntropyCSPRNG_GenerateBytes w n)) = Some (nat n)"
proof -
  obtain r w1 where r: "fill_blocks w (nat n) 0 (replicate (nat n) 0) = (r, w1)"
    by (cases "fill_blocks w (nat n) 0 (replicate (nat n) 0)")
  have "length (fst (fill_blocks w (nat n) 0 (replicate (nat n) 0))) = nat n" by simp
  with r have "length r = nat n" by simp
  with assms r show ?thesis
    by (simp add: WeatherCSPRNG_GenerateBytes_def multEntropyCSPRNG_GenerateBytes_def returned_def)
qed

lemma HybridCSPRNG_returns_n_bytes:
  assumes "0 \<le> n"
  shows "map_option length (returned (HybridCSPRNG_GenerateBytes w n)) = Some (nat n)"
proof -
  obtain r w1 where r: "fill_blocks w (nat n) 0 (replicate (nat n) 0) = (r, w1)"
    by (cases "fill_blocks w (nat n) 0 (replicate (nat n) 0)")
  have "length (fst (fill_blocks w (nat n) 0 (replicate (nat n) 0))) = nat n" by simp
  with r have "length r = nat n" by simp
  with assms r show ?thesis
    by (simp add: HybridCSPRNG_GenerateBytes_def returned_def)
qed

subsection \<open>Reseeding\<close>

lemma Since_gt_interval: "Since now t > RESEED_INTERVAL \<longleftrightarrow> now - t > RESEED_INTERVAL"
  by (auto simp: Since_def RESEED_INTERVAL_def min_def max_def)

lemma counter_reseed [simp]: "counter (reseed env w) = counter w"
  by (simp add: reseed_def)

lemma bytesGenerated_reseed [simp]: "bytesGenerated (reseed env w) = 0"
  by (simp add: reseed_def)

lemma lastReseed_reseed [simp]: "lastReseed (reseed env w) = reseed_time env"
  by (simp add: reseed_def)

lemma counter_generate:
  "counter (snd (generate w n)) = counter w + word_of_nat ((nat n + 31) div 32)"
proof (cases "n < 0")
  case True
  then show ?thesis by (simp add: generate_def)
next
  case False
  obtain r w1 where r: "rekey_blocks w (nat n) 0 (replicate (nat n) 0) = (r, w1)"
    by (cases "rekey_blocks w (nat n) 0 (replicate (nat n) 0)")
  have "counter (snd (rekey_blocks w (nat n) 0 (replicate (nat n) 0)))
        = counter w + word_of_nat ((nat n + 31) div 32)"
    by (simp add: counter_rekey_blocks)
  with r False show ?thesis by (simp add: generate_def)
qed

lemma bytesGenerated_generate:
  "0 \<le> n \<Longrightarrow> bytesGenerated (snd (generate w n)) = bytesGenerated w + n"
proof -
  assume n: "0 \<le> n"
  obtain r w1 where r: "rekey_blocks w (nat n) 0 (replicate (nat n) 0) = (r, w1)"
    by (cases "rekey_blocks w (nat n) 0 (replicate (nat n) 0)")
  have "bytesGenerated (snd (rekey_blocks w (nat n) 0 (replicate (nat n) 0))) = bytesGenerated w"
    by simp
  with r n show ?thesis by (simp add: generate_def)
qed

lemma generate_zero: "generate w 0 = (Inr ([], None), w)"
  by (simp add: generate_def rekey_blocks_done)

text \<open>
  Claim C2, as stated: after \<^verbatim>\<open>reseed()\<close> the counter is 0 and the bytes since the last
  reseed are 0; the counter only grows between reseeds and only a reseed sets it back.
  The code of \<^verbatim>\<open>reseed\<close> assigns the state, the reseed time and the byte total, and
  never the counter: on a generator whose counter is 5 it is still 5 afterwards.
\<close>

theorem reseed_counter_counterexample:
  "counter (reseed \<lparr>probe_start = 0, probe_response = GetFailed, probe_duration = 0,
       reseed_time = 7\<rparr>
     \<lparr>state = replicate 32 0, counter = 5, bytesGenerated = 9, lastReseed = 0\<rparr>) \<noteq> 0"
  by (simp add: reseed_def)

text \<open>
  Claim C2, amended: after \<^verbatim>\<open>reseed()\<close> the byte total is 0 and the counter is what it
  was; a call of \<^verbatim>\<open>GenerateBytes(n)\<close>, with or without a reseed, advances the counter
  by one per block, that is by \<open>\<lceil>n / 32\<rceil>\<close> modulo \<open>2 ^ 64\<close> (and not at all for a
  negative \<open>n\<close>), so it does not decrease unless it wraps around. Nothing sets it to 0.
\<close>

theorem reseed_keeps_counter:
  "bytesGenerated (reseed env w) = 0 \<and>
   counter (reseed env w) = counter w \<and>
   counter (snd (GenerateBytes now env w n)) = counter w + word_of_nat ((nat n + 31) div 32) \<and>
   (unat (counter w) + (nat n + 31) div 32 < 2 ^ 64 \<longrightarrow>
      counter w \<le> counter (snd (GenerateBytes now env w n)))"
proof -
  have c: "counter (snd (GenerateBytes now env w n))
           = counter w + word_of_nat ((nat n + 31) div 32)"
    by (simp add: GenerateBytes_def counter_generate)
  have "counter w \<le> counter w + word_of_nat ((nat n + 31) div 32)"
    if "unat (counter w) + (nat n + 31) div 32 < 2 ^ 64"
  proof -
    from that have "(nat n + 31) div 32 < 2 ^ 64" by simp
    then have "unat (word_of_nat ((nat n + 31) div 32) :: u64) = (nat n + 31) div 32"
      by (simp add: unat_of_nat)
    with that show ?thesis
      by (simp add: no_plus_overflow_unat_size word_size)
  qed
  with c show ?thesis by simp
qed

theorem reseed_keeps_counter_witness:
  "bytesGenerated (reseed \<lparr>probe_start = 0, probe_response = GetFailed, probe_duration = 0,
       reseed_time = 7\<rparr>
     \<lparr>state = replicate 32 0, counter = 5, bytesGenerated = 9, lastReseed = 0\<rparr>) = 0 \<and>
   counter (reseed \<lparr>probe_start = 0, probe_response = GetFailed, probe_duration = 0,
       reseed_time = 7\<rparr>
     \<lparr>state = replicate 32 0, counter = 5, bytesGenerated = 9, lastReseed = 0\<rparr>) = 5 \<and>
   counter (snd (GenerateBytes 1 \<lparr>probe_start = 0, probe_response = GetFailed,
         probe_duration = 0, reseed_time = 7\<rparr>
       \<lparr>state = replicate 32 0, counter = 5, bytesGenerated = 9, lastReseed = 0\<rparr> 40)) = 7 \<and>
   (5 :: u64) \<le> 7"
  using reseed_keeps_counter [where
      env = "\<lparr>probe_start = 0, probe_response = GetFailed, probe_duration = 0, reseed_time = 7\<rparr>"
      and w = "\<lparr>state = replicate 32 0, counter = 5, bytesGenerated = 9, lastReseed = 0\<rparr>"
      and n = 40 and now = 1]
  by simp

text \<open>Within both limits the call does not reseed.\<close>

lemma no_reseed_within_limits:
  assumes "bytesGenerated w \<le> RESEED_BYTE_INTERVAL" "now - lastReseed w \<le> RESEED_INTERVAL"
  shows "GenerateBytes now env w n = generate w n"
proof -
  from assms have "\<not> needs_reseed now w"
    by (simp add: needs_reseed_def Since_gt_interval)
  then show ?thesis by (simp add: GenerateBytes_def)
qed

text \<open>
  Claim C3, as stated: a generator whose byte total has reached the budget
  (\<open>bytesGenerated \<ge> RESEED_BYTE_INTERVAL\<close>) reseeds once at the next call. The check in
  the code is the strict \<^verbatim>\<open>w.bytesGenerated > RESEED_BYTE_INTERVAL\<close>: at exactly
  500 * 1024 * 1024 bytes, one nanosecond after the last reseed, a call for 0 bytes
  leaves the whole generator as it was, the byte total and the reseed time included.
\<close>

theorem budget_reached_counterexample:
  "RESEED_BYTE_INTERVAL \<le> bytesGenerated
     \<lparr>state = replicate 32 0, counter = 5, bytesGenerated = 524288000, lastReseed = 0\<rparr> \<and>
   GenerateBytes 1 \<lparr>probe_start = 0, probe_response = GetFailed, probe_duration = 0,
       reseed_time = 7\<rparr>
     \<lparr>state = replicate 32 0, counter = 5, bytesGenerated = 524288000, lastReseed = 0\<rparr> 0
   = (Inr ([], None),
      \<lparr>state = replicate 32 0, counter = 5, bytesGenerated = 524288000, lastReseed = 0\<rparr>)"
  by (simp add: no_reseed_within_limits generate_zero RESEED_BYTE_INTERVAL_def RESEED_INTERVAL_def)

text \<open>
  Claim C3, amended: a generator whose byte total is greater than the budget of
  500 * 1024 * 1024 bytes performs, at the next call, exactly the work of one
  \<^verbatim>\<open>reseed\<close> followed by the generation; the reseed leaves the byte total at 0, and
  after a call for \<open>n \<ge> 0\<close> bytes the total is \<open>n\<close>.
\<close>

theorem reseed_when_budget_exceeded:
  assumes "RESEED_BYTE_INTERVAL < bytesGenerated w"
  shows "GenerateBytes now env w n = generate (reseed env w) n \<and>
         bytesGenerated (reseed env w) = 0 \<and>
         (0 \<le> n \<longrightarrow> bytesGenerated (snd (GenerateBytes now env w n)) = n)"
proof -
  from assms have "needs_reseed now w" by (simp add: needs_reseed_def)
  then have "GenerateBytes now env w n = generate (reseed env w) n"
    by (simp add: GenerateBytes_def)
  then show ?thesis by (simp add: bytesGenerated_generate)
qed

theorem reseed_when_budget_exceeded_witness:
  "RESEED_BYTE_INTERVAL < 524288001 \<and>
   GenerateBytes 1 \<lparr>probe_start = 0, probe_response = GetFailed, probe_duration = 0,
       reseed_time = 7\<rparr>
     \<lparr>state = replicate 32 0, counter = 5, bytesGenerated = 524288001, lastReseed = 0\<rparr> 64
   = generate (reseed \<lparr>probe_start = 0, probe_response = GetFailed, probe_duration = 0,
         reseed_time = 7\<rparr>
       \<lparr>state = replicate 32 0, counter = 5, bytesGenerated = 524288001, lastReseed = 0\<rparr>) 64 \<and>
   bytesGenerated (snd (GenerateBytes 1 \<lparr>probe_start = 0, probe_response = GetFailed,
         probe_duration = 0, reseed_time = 7\<rparr>
       \<lparr>state = replicate 32 0, counter = 5, bytesGenerated = 524288001, lastReseed = 0\<rparr> 64))
   = 64"
  using reseed_when_budget_exceeded [where
      env = "\<lparr>probe_start = 0, probe_response = GetFailed, probe_duration = 0, reseed_time = 7\<rparr>"
      and w = "\<lparr>state = replicate 32 0, counter = 5, bytesGenerated = 524288001, lastReseed = 0\<rparr>"
      and n = 64 and now = 1]
  by (simp add: RESEED_BYTE_INTERVAL_def bytesGenerated_generate)

subsection \<open>The hash on integers computes the hash on words\<close>

lemma uint_rotr:
  assumes "n \<le> 32"
  shows "uint (rotr n x) = rotr_int (2 ^ n) (2 ^ (32 - n)) (uint x)"
proof -
  have "uint (push_bit (32 - n) x) = take_bit 32 (push_bit (32 - n) (uint x))"
    by (simp only: unsigned_push_bit_eq) simp
  also have "\<dots> = push_bit (32 - n) (take_bit (32 - (32 - n)) (uint x))"
    by (simp only: take_bit_push_bit)
  also have "\<dots> = uint x mod 2 ^ n * 2 ^ (32 - n)"
    using assms by (simp add: push_bit_eq_mult take_bit_eq_mod)
  finally have p: "uint (push_bit (32 - n) x) = uint x mod 2 ^ n * 2 ^ (32 - n)" .
  have d: "uint (drop_bit n x) = uint x div 2 ^ n"
  proof -
    have u: "uint (drop_bit n x) = drop_bit n (take_bit LENGTH(32) (uint x))"
      by (simp only: unsigned_drop_bit_eq)
    have t: "take_bit LENGTH(32) (uint x) = uint x"
      using uint_ge_0 [of x] uint_lt2p [of x] by (intro take_bit_int_eq_self)
    show ?thesis
      unfolding u t by (rule drop_bit_eq_div)
  qed
  show ?thesis
    by (simp only: rotr_def rotr_int_def unsigned_or_eq p d)
qed

lemma uint_not32: "uint (NOT x :: u32) = 4294967295 - uint x"
proof -
  have b: "0 \<le> uint x" "uint x < 4294967296"
    using uint_lt2p [of x] by simp_all
  have "uint (NOT x) = (- uint x - 1) mod 4294967296"
    by (simp add: unsigned_not_eq not_int_def take_bit_eq_mod)
  also have "\<dots> = (4294967296 + (- uint x - 1)) mod 4294967296"
    by (simp only: mod_add_self1)
  also have "4294967296 + (- uint x - 1) = 4294967295 - uint x"
    by simp
  also have "(4294967295 - uint x) mod 4294967296 = 4294967295 - uint x"
    using uint_ge_0 [of x] b(2) by (intro mod_pos_pos_trivial) linarith+
  finally show ?thesis .
qed

lemma uint_add32: "uint (a + b :: u32) = (uint a + uint b) mod 4294967296"
  by (simp add: uint_word_ariths)

lemma uint_Ch: "uint (Ch x y z) = Ch_int (uint x) (uint y) (uint z)"
  by (simp only: Ch_def Ch_int_def unsigned_xor_eq unsigned_and_eq uint_not32)

lemma uint_Maj: "uint (Maj x y z) = Maj_int (uint x) (uint y) (uint z)"
  by (simp only: Maj_def Maj_int_def unsigned_xor_eq unsigned_and_eq)

lemma uint_shr: "uint (drop_bit n x :: u32) = uint x div 2 ^ n"
proof -
  have u: "uint (drop_bit n x) = drop_bit n (take_bit LENGTH(32) (uint x))"
    by (simp only: unsigned_drop_bit_eq)
  have t: "take_bit LENGTH(32) (uint x) = uint x"
    using uint_ge_0 [of x] uint_lt2p [of x] by (intro take_bit_int_eq_self)
  show ?thesis
    unfolding u t by (rule drop_bit_eq_div)
qed

lemma uint_bsig0: "uint (bsig0 x) = bsig0_int (uint x)"
  using uint_rotr [of 2 x] uint_rotr [of 13 x] uint_rotr [of 22 x]
  by (simp add: bsig0_def bsig0_int_def unsigned_xor_eq)

lemma uint_bsig1: "uint (bsig1 x) = bsig1_int (uint x)"
  using uint_rotr [of 6 x] uint_rotr [of 11 x] uint_rotr [of 25 x]
  by (simp add: bsig1_def bsig1_int_def unsigned_xor_eq)

lemma uint_ssig0: "uint (ssig0 x) = ssig0_int (uint x)"
  using uint_rotr [of 7 x] uint_rotr [of 18 x] uint_shr [of 3 x]
  by (simp add: ssig0_def ssig0_int_def unsigned_xor_eq)

lemma uint_ssig1: "uint (ssig1 x) = ssig1_int (uint x)"
  using uint_rotr [of 17 x] uint_rotr [of 19 x] uint_shr [of 10 x]
  by (simp add: ssig1_def ssig1_int_def unsigned_xor_eq)

lemma schedule_int_eq:
  "w \<noteq> [] \<Longrightarrow> map uint (schedule k w) = schedule_int k (map uint w)"
proof (induction k arbitrary: w)
  case 0
  then show ?case by simp
next
  case (Suc k)
  from Suc.prems have l: "length w - 2 < length w" "length w - 7 < length w"
    "length w - 15 < length w" "length w - 16 < length w"
    by (cases w; simp)+
  let ?x = "ssig1 (w ! (length w - 2)) + w ! (length w - 7)
              + ssig0 (w ! (length w - 15)) + w ! (length w - 16)"
  have "map uint (schedule (Suc k) w) = schedule_int k (map uint (w @ [?x]))"
    using Suc.IH [of "w @ [?x]"] by (simp add: Let_def)
  moreover have "uint ?x = (ssig1_int (uint (w ! (length w - 2))) + uint (w ! (length w - 7))
       + ssig0_int (uint (w ! (length w - 15))) + uint (w ! (length w - 16))) mod 4294967296"
    by (simp add: uint_add32 uint_ssig0 uint_ssig1 mod_simps)
  ultimately show ?case
    using l by (simp add: Let_def nth_append)
qed

lemma sha_round_int_eq:
  "uint_state (sha_round s (k, w)) = sha_round_int (uint_state s) (uint k, uint w)"
  by (cases s rule: uint_state.cases)
     (simp add: Let_def uint_add32 uint_bsig0 uint_bsig1 uint_Ch uint_Maj mod_simps)

lemma foldl_sha_round_int_eq:
  "uint_state (foldl sha_round s kws)
   = foldl sha_round_int (uint_state s) (map (\<lambda>(k, w). (uint k, uint w)) kws)"
proof (induction kws arbitrary: s)
  case Nil
  then show ?case by simp
next
  case (Cons kw kws)
  then show ?case by (cases kw) (simp add: sha_round_int_eq)
qed

lemma add_state_int_eq:
  "uint_state (add_state s t) = add_state_int (uint_state s) (uint_state t)"
  by (cases s rule: uint_state.cases, cases t rule: uint_state.cases) (simp add: uint_add32)

lemma map_chunks: "map (map f) (chunks n xs) = chunks n (map f xs)"
proof (induction n xs rule: chunks.induct)
  case (1 n xs)
  show ?case
  proof (cases "n = 0 \<or> xs = []")
    case True
    then show ?thesis by (auto simp: chunks.simps)
  next
    case False
    with 1 have "map (map f) (chunks n (drop n xs)) = chunks n (map f (drop n xs))" by simp
    with False show ?thesis
      by (subst chunks.simps, subst (2) chunks.simps) (simp add: take_map drop_map)
  qed
qed

lemma chunks_Nil_iff: "chunks n xs = [] \<longleftrightarrow> n = 0 \<or> xs = []"
  by (subst chunks.simps) simp

lemma uint_byte32: "uint (ucast (b :: byte) :: u32) = uint b"
  by (simp add: uint_up_ucast is_up)

lemma load32_int_eq: "uint (load32 bs) = load32_int (map uint bs)"
proof -
  have "uint (foldl (\<lambda>acc b. push_bit 8 acc OR ucast b) (a :: u32) bs)
        = foldl (\<lambda>acc b. acc * 256 mod 4294967296 OR b) (uint a) (map uint bs)" for a
  proof (induction bs arbitrary: a)
    case Nil
    then show ?case by simp
  next
    case (Cons b bs)
    have "uint (push_bit 8 a) = take_bit 32 (push_bit 8 (uint a))"
      by (simp only: unsigned_push_bit_eq) simp
    then have p: "uint (push_bit 8 a) = uint a * 256 mod 4294967296"
      by (simp add: push_bit_eq_mult take_bit_eq_mod)
    have "uint (push_bit 8 a OR ucast b) = uint a * 256 mod 4294967296 OR uint b"
      by (simp only: unsigned_or_eq uint_byte32 p)
    with Cons.IH [of "push_bit 8 a OR ucast b"] show ?case by simp
  qed
  from this [of 0] show ?thesis by (simp add: load32_def load32_int_def)
qed

lemma K256_int_eq: "map uint K256 = K256_int"
  by (simp add: K256_def K256_int_def)

lemma H256_int_eq: "uint_state H256 = H256_int"
  by (simp add: H256_def H256_int_def)

lemma compress_int_eq:
  assumes "blk \<noteq> []"
  shows "uint_state (compress hs blk) = compress_int (uint_state hs) (map uint blk)"
proof -
  let ?w = "map load32 (chunks 4 blk)"
  from assms have ne: "?w \<noteq> []" by (simp add: chunks_Nil_iff)
  have w: "map uint (schedule 48 ?w) = schedule_int 48 (map load32_int (chunks 4 (map uint blk)))"
    using schedule_int_eq [OF ne, of 48]
    by (simp add: load32_int_eq flip: map_chunks) (simp add: comp_def load32_int_eq)
  have "map (\<lambda>(k, w). (uint k, uint w)) (zip K256 (schedule 48 ?w))
        = zip (map uint K256) (map uint (schedule 48 ?w))"
    by (simp add: zip_map_map)
  then show ?thesis
    by (simp add: compress_def compress_int_def Let_def add_state_int_eq
        foldl_sha_round_int_eq K256_int_eq w)
qed

lemma foldl_compress_int_eq:
  assumes "\<forall>blk \<in> set blks. blk \<noteq> []"
  shows "uint_state (foldl compress hs blks)
         = foldl compress_int (uint_state hs) (map (map uint) blks)"
  using assms by (induction blks arbitrary: hs) (simp_all add: compress_int_eq)

lemma chunks_nonempty: "blk \<in> set (chunks n xs) \<Longrightarrow> blk \<noteq> []"
proof (induction n xs rule: chunks.induct)
  case (1 n xs)
  show ?case
  proof (cases "n = 0 \<or> xs = []")
    case True
    with "1.prems" show ?thesis by (simp add: chunks.simps)
  next
    case False
    with "1.prems" have "blk = take n xs \<or> blk \<in> set (chunks n (drop n xs))"
      by (subst (asm) chunks.simps) simp
    with False 1 show ?thesis by auto
  qed
qed

lemma uint_byte_of32: "uint (ucast (w :: u32) :: byte) = uint w mod 256"
  by (simp add: unsigned_ucast_eq take_bit_eq_mod)

lemma be32_int_eq: "map uint (be32 w) = be32_int (uint w)"
  by (simp add: be32_def be32_int_def uint_byte_of32 uint_shr)

lemma digest_int_eq: "map uint (digest s) = digest_int (uint_state s)"
  by (cases s rule: uint_state.cases) (simp add: be32_int_eq)

lemma uint_byte_of64: "uint (ucast (w :: u64) :: byte) = uint w mod 256"
  by (simp add: unsigned_ucast_eq take_bit_eq_mod)

lemma uint_shr64: "uint (drop_bit n x :: u64) = uint x div 2 ^ n"
proof -
  have u: "uint (drop_bit n x) = drop_bit n (take_bit LENGTH(64) (uint x))"
    by (simp only: unsigned_drop_bit_eq)
  have t: "take_bit LENGTH(64) (uint x) = uint x"
    using uint_ge_0 [of x] uint_lt2p [of x] by (intro take_bit_int_eq_self)
  show ?thesis
    unfolding u t by (rule drop_bit_eq_div)
qed

lemma PutUint64_int_eq: "map uint (PutUint64 v) = PutUint64_int (uint v)"
  by (simp add: PutUint64_def PutUint64_int_def uint_byte_of64 uint_shr64)

lemma uint_of_nat64: "uint (word_of_nat n :: u64) = int n mod 18446744073709551616"
  by (simp add: unsigned_of_nat take_bit_eq_mod zmod_int)

lemma sha_pad_int_eq: "map uint (sha_pad m) = sha_pad_int (map uint m)"
  by (simp only: sha_pad_def sha_pad_int_def PutUint64_int_eq uint_of_nat64 map_append
      length_map) simp

lemma Sum256_int_eq: "map uint (Sum256 m) = Sum256_int (map uint m)"
proof -
  have "\<forall>blk \<in> set (chunks 64 (sha_pad m)). blk \<noteq> []"
    using chunks_nonempty by blast
  then show ?thesis
    by (simp add: Sum256_def Sum256_int_def digest_int_eq foldl_compress_int_eq H256_int_eq
        map_chunks sha_pad_int_eq)
qed

lemma length_Sum256_int: "length (Sum256_int (map uint (m :: byte list))) = 32"
  using length_Sum256 [of m] by (simp only: length_map flip: Sum256_int_eq)

lemma hmac_key_int_eq: "map uint (hmac_key key) = hmac_key_int (map uint key)"
  by (simp add: hmac_key_def hmac_key_int_def Let_def Sum256_int_eq length_Sum256_int)

lemma uint_xor_byte: "uint (b XOR c :: byte) = uint b XOR uint c"
  by (simp only: unsigned_xor_eq)

lemma hmac_sha256_int_eq:
  "map uint (hmac_sha256 key msg) = hmac_sha256_int (map uint key) (map uint msg)"
proof -
  have x: "map (uint \<circ> (\<lambda>b. b XOR c)) k = map ((\<lambda>b. b XOR uint c) \<circ> uint) k"
    for c :: byte and k
    by (simp add: uint_xor_byte comp_def)
  show ?thesis
    by (simp add: hmac_sha256_def hmac_sha256_int_def Let_def Sum256_int_eq x
        flip: hmac_key_int_eq)
qed

lemma bytes_of_uints:
  assumes "map uint xs = map uint ys"
  shows "xs = ys"
  using assms by (rule map_injective) (simp add: inj_on_def word_uint_eq_iff)

lemma eval_block_5:
  "hmac_sha256_int (replicate 32 0) [0, 0, 0, 0, 0, 0, 0, 5] =
   [160, 138, 150, 66, 10, 216, 165, 104, 58, 157, 150, 187, 67, 128, 102, 6, 60, 9, 248,
   101, 163, 156, 198, 107, 244, 142, 112, 107, 75, 224, 171, 212]"
  by code_simp

lemma eval_block_6:
  "hmac_sha256_int (replicate 32 0) [0, 0, 0, 0, 0, 0, 0, 6] =
   [228, 173, 17, 26, 40, 116, 113, 219, 127, 10, 169, 175, 202, 149, 170, 220, 205, 106,
   244, 19, 234, 76, 232, 167, 44, 40, 53, 27, 220, 169, 254, 236]"
  by code_simp

lemma eval_rekey:
  "hmac_sha256_int (replicate 32 0)
     [160, 138, 150, 66, 10, 216, 165, 104, 58, 157, 150, 187, 67, 128, 102, 6, 60, 9,
     248, 101, 163, 156, 198, 107, 244, 142, 112, 107, 75, 224, 171, 212] =
   [159, 207, 247, 250, 8, 123, 42, 139, 242, 84, 164, 83, 232, 179, 22, 6, 70, 251, 248,
   115, 86, 91, 211, 59, 47, 252, 195, 191, 187, 226, 115, 145]"
  by code_simp

lemma eval_block_6_rekeyed:
  "hmac_sha256_int
     [159, 207, 247, 250, 8, 123, 42, 139, 242, 84, 164, 83, 232, 179, 22, 6, 70, 251,
     248, 115, 86, 91, 211, 59, 47, 252, 195, 191, 187, 226, 115, 145]
     [0, 0, 0, 0, 0, 0, 0, 6] =
   [107, 208, 132, 119, 198, 63, 203, 116, 99, 45, 59, 177, 47, 43, 169, 173, 113, 202,
   173, 216, 182, 197, 73, 139, 92, 74, 173, 55, 215, 13, 91, 147]"
  by code_simp


lemma block_of_uints:
  assumes "hmac_sha256_int (map uint key) (map uint msg) = map uint blk"
  shows "hmac_sha256 key msg = blk"
  using assms by (intro bytes_of_uints) (simp only: hmac_sha256_int_eq)

lemma counter_5_bytes: "map uint (PutUint64 5) = [0, 0, 0, 0, 0, 0, 0, 5]"
  by (simp add: PutUint64_int_eq PutUint64_int_def)

lemma counter_6_bytes: "map uint (PutUint64 6) = [0, 0, 0, 0, 0, 0, 0, 6]"
  by (simp add: PutUint64_int_eq PutUint64_int_def)

subsection \<open>The two weather drafts compared\<close>

text \<open>
  How the drafts part after the first block, on a request of 64 bytes: the second block
  of \<^verbatim>\<open>crypto_csprng.go\<close> is keyed by the state the call started with, that of
  \<^verbatim>\<open>weather_prng.go\<close> by the state as replaced after the first block.
\<close>

lemma copy_first_block:
  "length blk = 32 \<Longrightarrow> copy_into (replicate 64 z) 0 blk = blk @ replicate 32 z"
  by (simp add: copy_into_def Let_def min_def flip: replicate_add)

lemma copy_second_block:
  "length blk0 = 32 \<Longrightarrow> length blk = 32 \<Longrightarrow> copy_into (blk0 @ replicate 32 z) 32 blk = blk0 @ blk"
  by (simp add: copy_into_def Let_def min_def)

lemma two_blocks_fill:
  "fst (fill_blocks w 64 0 (replicate 64 0))
   = hmac_sha256 (state w) (PutUint64 (counter w))
     @ hmac_sha256 (state w) (PutUint64 (counter w + 1))"
  by (simp add: fill_blocks_step fill_blocks_done copy_first_block copy_second_block)

lemma two_blocks_rekey:
  "fst (rekey_blocks w 64 0 (replicate 64 0))
   = hmac_sha256 (state w) (PutUint64 (counter w))
     @ hmac_sha256 (hmac_sha256 (state w) (hmac_sha256 (state w) (PutUint64 (counter w))))
         (PutUint64 (counter w + 1))"
  by (simp add: rekey_blocks_step rekey_blocks_done copy_first_block copy_second_block)

lemma two_blocks_of_each_draft:
  assumes "\<not> needs_reseed now w'" "state w' = state w" "counter w' = counter w"
  shows "returned (WeatherCSPRNG_GenerateBytes w 64)
           = Some (hmac_sha256 (state w) (PutUint64 (counter w))
                   @ hmac_sha256 (state w) (PutUint64 (counter w + 1))) \<and>
         returned (GenerateBytes now env w' 64)
           = Some (hmac_sha256 (state w) (PutUint64 (counter w))
                   @ hmac_sha256
                       (hmac_sha256 (state w) (hmac_sha256 (state w) (PutUint64 (counter w))))
                       (PutUint64 (counter w + 1)))"
proof -
  obtain a w1 where a: "fill_blocks w 64 0 (replicate 64 0) = (a, w1)"
    by (cases "fill_blocks w 64 0 (replicate 64 0)")
  obtain b w2 where b: "rekey_blocks w' 64 0 (replicate 64 0) = (b, w2)"
    by (cases "rekey_blocks w' 64 0 (replicate 64 0)")
  from a two_blocks_fill [of w]
  have a': "a = hmac_sha256 (state w) (PutUint64 (counter w))
               @ hmac_sha256 (state w) (PutUint64 (counter w + 1))"
    by simp
  from b two_blocks_rekey [of w'] assms(2,3)
  have b': "b = hmac_sha256 (state w) (PutUint64 (counter w))
               @ hmac_sha256
                   (hmac_sha256 (state w) (hmac_sha256 (state w) (PutUint64 (counter w))))
                   (PutUint64 (counter w + 1))"
    by simp
  have "returned (WeatherCSPRNG_GenerateBytes w 64) = Some a"
    using a a' by (simp add: WeatherCSPRNG_GenerateBytes_def returned_def)
  moreover have "returned (GenerateBytes now env w' 64) = Some b"
    using b assms(1) by (simp add: GenerateBytes_def generate_def returned_def)
  ultimately show ?thesis by (simp only: a' b')
qed

text \<open>
  The blocks of a request of 64 bytes from a state of 32 zero bytes and the counter 5:
  the first block, the second block under the same key, the key that replaces the state
  after the first block, and the second block under that key.
\<close>

lemma zero_key_uints: "map uint (replicate 32 (0 :: byte)) = replicate 32 0"
  by simp

lemma first_block_value:
  "hmac_sha256 (replicate 32 0) (PutUint64 5) =
   [160, 138, 150, 66, 10, 216, 165, 104, 58, 157, 150, 187, 67, 128, 102, 6, 60, 9, 248,
   101, 163, 156, 198, 107, 244, 142, 112, 107, 75, 224, 171, 212]"
  by (rule block_of_uints) (simp only: zero_key_uints counter_5_bytes eval_block_5, simp)

lemma second_block_value:
  "hmac_sha256 (replicate 32 0) (PutUint64 6) =
   [228, 173, 17, 26, 40, 116, 113, 219, 127, 10, 169, 175, 202, 149, 170, 220, 205, 106,
   244, 19, 234, 76, 232, 167, 44, 40, 53, 27, 220, 169, 254, 236]"
  by (rule block_of_uints) (simp only: zero_key_uints counter_6_bytes eval_block_6, simp)

lemma replaced_key_value:
  "hmac_sha256 (replicate 32 0)
     [160, 138, 150, 66, 10, 216, 165, 104, 58, 157, 150, 187, 67, 128, 102, 6, 60, 9, 248,
     101, 163, 156, 198, 107, 244, 142, 112, 107, 75, 224, 171, 212] =
   [159, 207, 247, 250, 8, 123, 42, 139, 242, 84, 164, 83, 232, 179, 22, 6, 70, 251, 248,
   115, 86, 91, 211, 59, 47, 252, 195, 191, 187, 226, 115, 145]"
  by (rule block_of_uints) (simp add: eval_rekey)

lemma second_block_rekeyed_value:
  "hmac_sha256
     [159, 207, 247, 250, 8, 123, 42, 139, 242, 84, 164, 83, 232, 179, 22, 6, 70, 251, 248,
     115, 86, 91, 211, 59, 47, 252, 195, 191, 187, 226, 115, 145]
     (PutUint64 6) =
   [107, 208, 132, 119, 198, 63, 203, 116, 99, 45, 59, 177, 47, 43, 169, 173, 113, 202, 173,
   216, 182, 197, 73, 139, 92, 74, 173, 55, 215, 13, 91, 147]"
  by (rule block_of_uints) (simp add: counter_6_bytes eval_block_6_rekeyed)

text \<open>
  Claim C4, as stated: from the same state and counter, and with no reseed due, the
  \<^verbatim>\<open>GenerateBytes\<close> of \<^verbatim>\<open>crypto_csprng.go\<close> and of \<^verbatim>\<open>weather_prng.go\<close> give the
  same bytes for every length. On a request of 64 bytes from a state of 32 zero bytes and
  the counter 5, with no reseed due, both return 64 bytes and no error; the first 32
  bytes are the same and the last 32 are not.
\<close>

theorem drafts_differ_counterexample:
  "\<not> needs_reseed 1 \<lparr>state = replicate 32 0, counter = 5, bytesGenerated = 0, lastReseed = 0\<rparr> \<and>
   returned (WeatherCSPRNG_GenerateBytes \<lparr>state = replicate 32 0, counter = 5\<rparr> 64) =
     Some ([160, 138, 150, 66, 10, 216, 165, 104, 58, 157, 150, 187, 67, 128, 102, 6, 60, 9,
           248, 101, 163, 156, 198, 107, 244, 142, 112, 107, 75, 224, 171, 212]
           @ [228, 173, 17, 26, 40, 116, 113, 219, 127, 10, 169, 175, 202, 149, 170, 220, 205,
           106, 244, 19, 234, 76, 232, 167, 44, 40, 53, 27, 220, 169, 254, 236]) \<and>
   returned (GenerateBytes 1 \<lparr>probe_start = 0, probe_response = GetFailed, probe_duration = 0,
         reseed_time = 7\<rparr>
       \<lparr>state = replicate 32 0, counter = 5, bytesGenerated = 0, lastReseed = 0\<rparr> 64) =
     Some ([160, 138, 150, 66, 10, 216, 165, 104, 58, 157, 150, 187, 67, 128, 102, 6, 60, 9,
           248, 101, 163, 156, 198, 107, 244, 142, 112, 107, 75, 224, 171, 212]
           @ [107, 208, 132, 119, 198, 63, 203, 116, 99, 45, 59, 177, 47, 43, 169, 173, 113,
           202, 173, 216, 182, 197, 73, 139, 92, 74, 173, 55, 215, 13, 91, 147]) \<and>
   returned (WeatherCSPRNG_GenerateBytes \<lparr>state = replicate 32 0, counter = 5\<rparr> 64) \<noteq>
   returned (GenerateBytes 1 \<lparr>probe_start = 0, probe_response = GetFailed, probe_duration = 0,
         reseed_time = 7\<rparr>
       \<lparr>state = replicate 32 0, counter = 5, bytesGenerated = 0, lastReseed = 0\<rparr> 64)"
proof -
  let ?w = "\<lparr>state = replicate 32 0, counter = 5\<rparr> :: KeyedState"
  let ?w' = "\<lparr>state = replicate 32 0, counter = 5, bytesGenerated = 0, lastReseed = 0\<rparr>"
  let ?env = "\<lparr>probe_start = 0, probe_response = GetFailed, probe_duration = 0,
         reseed_time = 7\<rparr>"
  have h: "\<not> needs_reseed 1 ?w'"
    by (simp add: needs_reseed_def Since_def RESEED_INTERVAL_def RESEED_BYTE_INTERVAL_def)
  have c: "counter ?w + 1 = 6" by simp
  from two_blocks_of_each_draft [where w = ?w and w' = ?w' and now = 1 and env = ?env, OF h]
  have a: "returned (WeatherCSPRNG_GenerateBytes ?w 64)
             = Some (hmac_sha256 (state ?w) (PutUint64 (counter ?w))
                     @ hmac_sha256 (state ?w) (PutUint64 (counter ?w + 1)))"
    and b: "returned (GenerateBytes 1 ?env ?w' 64)
             = Some (hmac_sha256 (state ?w) (PutUint64 (counter ?w))
                     @ hmac_sha256
                         (hmac_sha256 (state ?w) (hmac_sha256 (state ?w) (PutUint64 (counter ?w))))
                         (PutUint64 (counter ?w + 1)))"
    by simp_all
  have a': "returned (WeatherCSPRNG_GenerateBytes ?w 64) =
     Some ([160, 138, 150, 66, 10, 216, 165, 104, 58, 157, 150, 187, 67, 128, 102, 6, 60, 9,
           248, 101, 163, 156, 198, 107, 244, 142, 112, 107, 75, 224, 171, 212]
           @ [228, 173, 17, 26, 40, 116, 113, 219, 127, 10, 169, 175, 202, 149, 170, 220, 205,
           106, 244, 19, 234, 76, 232, 167, 44, 40, 53, 27, 220, 169, 254, 236])"
    unfolding a c by (simp only: KeyedState.simps first_block_value second_block_value)
  have b': "returned (GenerateBytes 1 ?env ?w' 64) =
     Some ([160, 138, 150, 66, 10, 216, 165, 104, 58, 157, 150, 187, 67, 128, 102, 6, 60, 9,
           248, 101, 163, 156, 198, 107, 244, 142, 112, 107, 75, 224, 171, 212]
           @ [107, 208, 132, 119, 198, 63, 203, 116, 99, 45, 59, 177, 47, 43, 169, 173, 113,
           202, 173, 216, 182, 197, 73, 139, 92, 74, 173, 55, 215, 13, 91, 147])"
    unfolding b c
    by (simp only: KeyedState.simps first_block_value replaced_key_value
        second_block_rekeyed_value)
  have "returned (WeatherCSPRNG_GenerateBytes ?w 64) \<noteq> returned (GenerateBytes 1 ?env ?w' 64)"
    unfolding a' b' by simp
  with h a' b' show ?thesis by (intro conjI)
qed

text \<open>
  Claim C4, amended: from the same state and counter, and with no reseed due, both drafts
  return, for every request of at least 32 bytes, an output whose first 32 bytes are the
  HMAC of the big-endian counter under the state; for a request of exactly 32 bytes the
  two outputs are identical. (Later blocks are keyed differently: \<^verbatim>\<open>weather_prng.go\<close>
  replaces the state after every block, \<^verbatim>\<open>crypto_csprng.go\<close> once per call.)
\<close>

theorem drafts_agree_on_first_block:
  assumes "32 \<le> n" "\<not> needs_reseed now w'" "state w' = state w" "counter w' = counter w"
  shows "map_option (take 32) (returned (WeatherCSPRNG_GenerateBytes w n))
           = Some (hmac_sha256 (state w) (PutUint64 (counter w))) \<and>
         map_option (take 32) (returned (GenerateBytes now env w' n))
           = Some (hmac_sha256 (state w) (PutUint64 (counter w))) \<and>
         (n = 32 \<longrightarrow> returned (WeatherCSPRNG_GenerateBytes w n)
                       = returned (GenerateBytes now env w' n))"
proof -
  let ?z = "replicate (nat n) (0 :: byte)"
  let ?blk = "hmac_sha256 (state w) (PutUint64 (counter w))"
  from assms(1) have n: "32 \<le> nat n" "\<not> n < 0" by simp_all
  obtain a w1 where a: "fill_blocks w (nat n) 0 ?z = (a, w1)"
    by (cases "fill_blocks w (nat n) 0 ?z")
  obtain b w2 where b: "rekey_blocks w' (nat n) 0 ?z = (b, w2)"
    by (cases "rekey_blocks w' (nat n) 0 ?z")
  have "length (fst (fill_blocks w (nat n) 0 ?z)) = nat n" by simp
  with a have la: "length a = nat n" by simp
  have "length (fst (rekey_blocks w' (nat n) 0 ?z)) = nat n" by simp
  with b have lb: "length b = nat n" by simp
  have "take 32 (fst (fill_blocks w (nat n) 0 ?z)) = ?blk"
    using n by (simp add: first_block_fill_blocks)
  with a have ta: "take 32 a = ?blk" by simp
  have "take 32 (fst (rekey_blocks w' (nat n) 0 ?z)) = ?blk"
    using n assms(3,4) by (simp add: first_block_rekey_blocks)
  with b have tb: "take 32 b = ?blk" by simp
  have ra: "returned (WeatherCSPRNG_GenerateBytes w n) = Some a"
    using a la n by (simp add: WeatherCSPRNG_GenerateBytes_def returned_def)
  have rb: "returned (GenerateBytes now env w' n) = Some b"
    using b n assms(2) by (simp add: GenerateBytes_def generate_def returned_def)
  have "a = b" if "n = 32"
  proof -
    from that la lb have "take 32 a = a" "take 32 b = b" by simp_all
    with ta tb show ?thesis by simp
  qed
  then have "n = 32 \<longrightarrow> returned (WeatherCSPRNG_GenerateBytes w n)
                       = returned (GenerateBytes now env w' n)"
    by (simp only: ra rb) simp
  moreover have "map_option (take 32) (returned (WeatherCSPRNG_GenerateBytes w n)) = Some ?blk"
    by (simp only: ra option.map ta)
  moreover have "map_option (take 32) (returned (GenerateBytes now env w' n)) = Some ?blk"
    by (simp only: rb option.map tb)
  ultimately show ?thesis by (intro conjI)
qed

theorem drafts_agree_on_first_block_witness:
  "(32::int) \<le> 32 \<and>
   \<not> needs_reseed 1 \<lparr>state = replicate 32 0, counter = 5, bytesGenerated = 0, lastReseed = 0\<rparr> \<and>
   map_option (take 32)
     (returned (WeatherCSPRNG_GenerateBytes \<lparr>state = replicate 32 0, counter = 5\<rparr> 32))
     = Some (hmac_sha256 (replicate 32 0) (PutUint64 5)) \<and>
   returned (WeatherCSPRNG_GenerateBytes \<lparr>state = replicate 32 0, counter = 5\<rparr> 32)
     = returned (GenerateBytes 1 \<lparr>probe_start = 0, probe_response = GetFailed,
           probe_duration = 0, reseed_time = 7\<rparr>
         \<lparr>state = replicate 32 0, counter = 5, bytesGenerated = 0, lastReseed = 0\<rparr> 32)"
proof -
  have h: "\<not> needs_reseed 1 \<lparr>state = replicate 32 0, counter = 5, bytesGenerated = 0, lastReseed = 0\<rparr>"
    by (simp add: needs_reseed_def Since_def RESEED_INTERVAL_def RESEED_BYTE_INTERVAL_def)
  show ?thesis
    using h drafts_agree_on_first_block [where n = 32 and now = 1
        and w = "\<lparr>state = replicate 32 0, counter = 5\<rparr>"
        and w' = "\<lparr>state = replicate 32 0, counter = 5, bytesGenerated = 0, lastReseed = 0\<rparr>"
        and env = "\<lparr>probe_start = 0, probe_response = GetFailed, probe_duration = 0, reseed_time = 7\<rparr>",
        OF _ h]
    by simp
qed

subsection \<open>Entropy gathering when the sources fail\<close>

lemma bytes_append: "bytes (a @ b) = bytes a @ bytes b"
  by (simp add: bytes_def)

lemma gatherEntropy_all_requests_failed:
  assumes "weather_response env = GetFailed" "market_response env = GetFailed" "network_failed env"
  shows "entropy_string env
           = bytes (''weather_error|market_error|network_error|'' @ FormatInt (gather_time env)) \<and>
         state (NewmultEntropyCSPRNG env) = Sum256 (entropy_string env) \<and>
         length (state (NewmultEntropyCSPRNG env)) = 32"
  using assms
  by (simp add: entropy_string_def getWeather_def getMarket_def getNetwork_def bytes_def
      NewmultEntropyCSPRNG_def gatherEntropy_def)

text \<open>
  In the reseeding draft every failed source is replaced by one of its fixed strings, and
  \<^verbatim>\<open>reseed\<close>, which has no error result, installs the HMAC of the digest of these
  strings and the clock reading under the previous seed.
\<close>

lemma no_latencies:
  assumes "\<forall>r \<in> set rs. r = None"
  shows "concat (map (\<lambda>r. case r of None \<Rightarrow> [] | Some d \<Rightarrow> [FormatInt d]) rs) = []"
  using assms by (induction rs) simp_all

lemma reseed_all_sources_failed:
  assumes "source_failed (weather_answer env)" "source_failed (market_answer env)"
    "\<forall>r \<in> set (endpoint_latencies env). r = None"
  shows "getWeather_reseeding env \<in> {bytes ''weather_error'', bytes ''weather_read_error''} \<and>
         getMarket_reseeding env \<in> {bytes ''market_error'', bytes ''market_read_error''} \<and>
         getNetworkJitter env = bytes ''network_error_all'' \<and>
         state (multEntropyCSPRNG_reseed env c)
           = hmac_sha256 (state c) (Sum256 (entropy_string_reseeding env)) \<and>
         length (state (multEntropyCSPRNG_reseed env c)) = 32 \<and>
         bytesGenerated (multEntropyCSPRNG_reseed env c) = 0 \<and>
         lastReseed (multEntropyCSPRNG_reseed env c) = reseeded_at env \<and>
         counter (multEntropyCSPRNG_reseed env c) = counter c"
proof -
  have "getWeather_reseeding env \<in> {bytes ''weather_error'', bytes ''weather_read_error''}"
    using assms(1)
    by (cases "weather_answer env") (simp_all add: getWeather_reseeding_def source_failed_def)
  moreover have "getMarket_reseeding env \<in> {bytes ''market_error'', bytes ''market_read_error''}"
    using assms(2)
    by (cases "market_answer env") (simp_all add: getMarket_reseeding_def source_failed_def)
  moreover have "getNetworkJitter env = bytes ''network_error_all''"
    using no_latencies [OF assms(3)] by (simp add: getNetworkJitter_def)
  ultimately show ?thesis
    by (simp add: multEntropyCSPRNG_reseed_def gatherEntropy_reseeding_def)
qed

text \<open>
  Claim C5: when every entropy source fails (network error, read error or timeout), the
  seed is still replaced, without an error for the caller, fixed fallback strings
  standing in for the failed sources. In \<^verbatim>\<open>multEntropy_prng.go\<close> the error of
  \<^verbatim>\<open>io.ReadAll\<close> is dropped: when the weather body breaks off after the byte
  \<^verbatim>\<open>{\<close> and the two other requests fail, the hashed string starts with that byte
  and not with a fixed string. The reseeding draft of the same type hashes
  \<^verbatim>\<open>weather_read_error\<close> in the same situation.
\<close>

theorem read_error_not_substituted:
  "source_failed (BodyReadFailed (bytes ''{'')) \<and>
   source_failed GetFailed \<and>
   entropy_string \<lparr>weather_response = BodyReadFailed (bytes ''{''), market_response = GetFailed,
       network_failed = True, network_duration = 0, gather_time = 1\<rparr>
     = bytes ''{|market_error|network_error|1'' \<and>
   entropy_string_reseeding \<lparr>weather_answer = BodyReadFailed (bytes ''{''),
       market_answer = GetFailed, endpoint_latencies = [None, None, None, None],
       gathered_at = 1, reseeded_at = 2\<rparr>
     = bytes ''weather_read_error|market_error|network_error_all|1''"
  by (simp add: source_failed_def entropy_string_def getWeather_def getMarket_def getNetwork_def
      entropy_string_reseeding_def getWeather_reseeding_def getMarket_reseeding_def
      getNetworkJitter_def bytes_def FormatInt_def nat_digits.simps digit_char_def)

section \<open>Properties of the statistical analysis\<close>

subsection \<open>Counting\<close>

lemma foldl_add_zero:
  assumes "\<And>x. x \<in> set xs \<Longrightarrow> f x = 0"
  shows "foldl (\<lambda>a x. a + f x) a0 xs = (a0 :: real)"
  using assms by (induction xs arbitrary: a0) simp_all

lemma foldl_sub_const:
  assumes "\<And>x. x \<in> set xs \<Longrightarrow> f x = c"
  shows "foldl (\<lambda>a x. a - f x) a0 xs = (a0 :: real) - real (length xs) * c"
  using assms by (induction xs arbitrary: a0) (simp_all add: algebra_simps)

lemma count_bytes_snoc:
  "count_bytes (xs @ [x]) = (count_bytes xs)(x \<mapsto> lookup0 (count_bytes xs) x + 1)"
  by (simp add: count_bytes_def)

lemma foldl_keep [simp]: "foldl (\<lambda>a x. a) a0 xs = a0"
  by (induction xs) simp_all

lemma lookup0_count_bytes: "lookup0 (count_bytes data) b = int (count_list data b)"
proof (induction data arbitrary: b rule: rev_induct)
  case Nil
  show ?case by (simp add: count_bytes_def lookup0_def)
next
  case (snoc x xs)
  then show ?case by (simp add: count_bytes_snoc lookup0_def)
qed

lemma count_bytes_Some:
  "b \<in> set data \<Longrightarrow> count_bytes data b = Some (int (count_list data b))"
proof (induction data rule: rev_induct)
  case Nil
  then show ?case by simp
next
  case (snoc x xs)
  then show ?case
    using lookup0_count_bytes [of xs x]
    by (auto simp: count_bytes_snoc)
qed

lemma length_count_slice [simp]: "length (count_slice data) = 256"
  by (induction data rule: rev_induct) (simp_all add: count_slice_def)

lemma unat_byte_less: "unat (b :: byte) < 256"
  using unsigned_less [of b, where ?'a = nat] by simp

lemma nth_count_slice:
  "i < 256 \<Longrightarrow> count_slice data ! i = int (count_list data (word_of_nat i))"
proof (induction data rule: rev_induct)
  case Nil
  then show ?case by (simp add: count_slice_def)
next
  case (snoc x xs)
  have len: "length (count_slice xs) = 256" by simp
  have step: "count_slice (xs @ [x])
              = (count_slice xs)[unat x := count_slice xs ! unat x + 1]"
    by (simp add: count_slice_def)
  show ?case
  proof (cases "i = unat x")
    case True
    then have "word_of_nat i = x" by simp
    with True snoc len show ?thesis by (simp add: step)
  next
    case False
    have "(word_of_nat i :: byte) \<noteq> x"
    proof
      assume "(word_of_nat i :: byte) = x"
      then have "unat x = unat (word_of_nat i :: byte)" by simp
      also have "\<dots> = i" using snoc.prems by (simp add: unat_of_nat)
      finally show False using False by simp
    qed
    with False snoc len show ?thesis by (simp add: step)
  qed
qed

lemma log2_inv_256: "log 2 (1 / 256) = - 8"
proof -
  have p: "log 2 ((2 :: real) ^ 8) = real 8"
    by (rule log_pow_cancel) simp_all
  have "log 2 (1 / 256) = log 2 (inverse ((2 :: real) ^ 8))"
    by (simp add: inverse_eq_divide)
  also have "\<dots> = - log 2 ((2 :: real) ^ 8)"
    by (rule log_inverse)
  finally have "log 2 (1 / 256) = - real 8" by (simp only: p)
  then show ?thesis by simp
qed

lemma word_of_nat_in_set:
  assumes "\<forall>b :: byte. count_list data b = 1"
  shows "b \<in> set data"
proof (rule ccontr)
  assume "b \<notin> set data"
  then have "count_list data b = 0" by simp
  with assms show False by simp
qed

lemma count_list_upt: "count_list [0..<n] k = (if k < n then 1 else 0)"
  by (induction n) auto

lemma count_list_all_bytes: "count_list all_bytes b = 1"
proof -
  have inj: "inj_on (word_of_nat :: nat \<Rightarrow> byte) (set [0..<256])"
  proof (rule inj_onI)
    fix x y :: nat
    assume "x \<in> set [0..<256]" "y \<in> set [0..<256]"
      and eq: "(word_of_nat x :: byte) = word_of_nat y"
    then have "x < 256" "y < 256" by simp_all
    then have "unat (word_of_nat x :: byte) = x" "unat (word_of_nat y :: byte) = y"
      by (simp_all add: unat_of_nat)
    with eq show "x = y" by metis
  qed
  have mem: "unat b \<in> set [0..<256]"
    using unat_byte_less [of b] by simp
  have "count_list (map word_of_nat [0..<256]) (word_of_nat (unat b) :: byte)
        = count_list [0..<256] (unat b)"
    using inj mem by (rule count_list_inj_map)
  also have "\<dots> = 1"
    using unat_byte_less [of b] by (simp only: count_list_upt if_True)
  finally show ?thesis by (simp add: all_bytes_def)
qed

subsection \<open>The uniform buffer\<close>

text \<open>
  Claim C6. For a buffer of exactly 256 bytes in which every byte value from 0 to 255
  occurs exactly once, the chi-square statistic is 0 and the Shannon entropy is 8,
  both for the functions of \<^verbatim>\<open>main.go\<close> and for \<^verbatim>\<open>basicAnalysis\<close>. (Every
  intermediate value here, \<open>1\<close>, \<open>1/256\<close>, \<open>-8\<close> and the multiples of \<open>1/32\<close> up to
  8, is a binary fraction that \<^verbatim>\<open>float64\<close> holds exactly.)
\<close>

theorem uniform_buffer_statistics:
  assumes "length data = 256" "\<forall>b. count_list data b = 1"
  shows "calculateChiSquare data = 0 \<and> calculateShannonEntropy data = 8 \<and>
         ChiSquare (basicAnalysis data) = Fin 0 \<and> ShannonEntropy (basicAnalysis data) = Fin 8"
proof -
  have one: "count_list data b = 1" for b using assms(2) by simp
  have mem: "b \<in> set data" for b using assms(2) by (rule word_of_nat_in_set)
  have chi: "calculateChiSquare data = 0"
    using assms(1)
    by (simp add: calculateChiSquare_def Let_def lookup0_count_bytes one foldl_add_zero)
  have cb: "count_bytes data b = Some 1" for b
    using count_bytes_Some [OF mem, of b] by (simp add: one)
  have "calculateShannonEntropy data
        = foldl (\<lambda>entropy b. entropy - (1 / 256 * log 2 (1 / 256))) (0 :: real) all_bytes"
    using assms(1) by (simp add: calculateShannonEntropy_def Let_def cb)
  also have "\<dots> = 0 - real (length all_bytes) * (1 / 256 * log 2 (1 / 256))"
    by (rule foldl_sub_const) simp
  also have "\<dots> = 8"
    by (simp add: all_bytes_def log2_inv_256)
  finally have ent: "calculateShannonEntropy data = 8" .
  have slice: "count_slice data = replicate 256 1"
    by (rule nth_equalityI) (simp_all add: nth_count_slice one)
  have "foldl (\<lambda>chi count. chi + (real_of_int count - 1) * (real_of_int count - 1) / 1)
          (0 :: real) (replicate 256 1) = 0"
    by (rule foldl_add_zero) simp
  then have chi2: "ChiSquare (basicAnalysis data) = Fin 0"
    using assms(1) by (simp add: basicAnalysis_def Let_def slice)
  have "foldl (\<lambda>shannon count. if (0 :: int) < count
            then (let prob = real_of_int count / real (length data)
                  in shannon - prob * log 2 prob)
            else shannon)
          (0 :: real) (replicate 256 1)
        = foldl (\<lambda>shannon count. shannon - (1 / 256 * log 2 (1 / 256))) 0 (replicate 256 (1 :: int))"
    by (rule foldl_cong) (simp_all add: assms(1) Let_def)
  also have "\<dots> = 0 - real (length (replicate 256 (1 :: int))) * (1 / 256 * log 2 (1 / 256))"
    by (rule foldl_sub_const) simp
  also have "\<dots> = 8" by (simp add: log2_inv_256)
  finally have ent2: "ShannonEntropy (basicAnalysis data) = Fin 8"
    using assms(1) by (simp add: basicAnalysis_def Let_def slice)
  from chi ent chi2 ent2 show ?thesis by simp
qed

theorem uniform_buffer_statistics_witness:
  "length all_bytes = 256 \<and> (\<forall>b. count_list all_bytes b = 1) \<and>
   calculateChiSquare all_bytes = 0 \<and> calculateShannonEntropy all_bytes = 8 \<and>
   ChiSquare (basicAnalysis all_bytes) = Fin 0 \<and> ShannonEntropy (basicAnalysis all_bytes) = Fin 8"
proof -
  have l: "length all_bytes = 256" by (simp add: all_bytes_def)
  have c: "\<forall>b. count_list all_bytes b = 1" by (simp add: count_list_all_bytes)
  from l c uniform_buffer_statistics [OF l c] show ?thesis by blast
qed

subsection \<open>The buffer of one byte\<close>

text \<open>
  Claim C10. For a buffer of exactly one byte \<^verbatim>\<open>basicAnalysis\<close> divides 0 matches by
  \<open>sampleSize - 1 = 0\<close>, so the autocorrelation it returns is \<open>NaN\<close>; the check at the
  head of the function only covers the empty buffer, for which every field is zero. (From
  two bytes on the divisor is positive and the autocorrelation is a finite number.)
\<close>

theorem single_byte_autocorrelation:
  "(length data = 1 \<longrightarrow> Autocorrelation (basicAnalysis data) = NaN) \<and>
   (2 \<le> length data \<longrightarrow> (\<exists>r. Autocorrelation (basicAnalysis data) = Fin r)) \<and>
   basicAnalysis [] = Analysis_zero \<and> Autocorrelation (basicAnalysis []) = Fin 0"
  by (auto simp: basicAnalysis_def Let_def Analysis_zero_def)

theorem single_byte_autocorrelation_witness:
  "length [7 :: byte] = 1 \<and> Autocorrelation (basicAnalysis [7]) = NaN"
  using single_byte_autocorrelation [of "[7]"] by simp

subsection \<open>The bit sum of the monobit test\<close>

lemma lowest_bit_test: "drop_bit i b AND 1 = 1 \<longleftrightarrow> bit b i" for b :: byte
  by (simp add: and_one_eq bit_iff_odd_drop_bit odd_iff_mod_2_eq_one)

lemma foldl_plus_sum_list:
  "foldl (\<lambda>s x. s + g x) s0 xs = s0 + sum_list (map g xs)" for s0 :: int
  by (induction xs arbitrary: s0) simp_all

lemma bit_loop:
  "foldl (\<lambda>s i. if drop_bit i b AND 1 = 1 then s + 1 else s - 1) s0 xs
   = s0 + (\<Sum>i\<leftarrow>xs. if bit b i then 1 else - 1)" for b :: byte and s0 :: int
proof -
  have "foldl (\<lambda>s i. if drop_bit i b AND 1 = 1 then s + 1 else s - 1) s0 xs
        = foldl (\<lambda>s i. s + (if bit b i then 1 else - 1)) s0 xs"
    by (rule foldl_cong) (simp_all add: lowest_bit_test)
  then show ?thesis by (simp only: foldl_plus_sum_list)
qed

lemma monobit_sum_eq: "monobit_sum data = monobit_S data"
proof -
  have "foldl (\<lambda>s b. foldl (\<lambda>s i. if drop_bit i b AND 1 = 1 then s + 1 else s - 1) s [0..<8]) s0 data
        = s0 + (\<Sum>b\<leftarrow>data. \<Sum>i\<leftarrow>[0..<8]. if bit b i then 1 else - 1)" for s0 :: int
    by (induction data arbitrary: s0) (simp_all only: foldl.simps bit_loop list.map sum_list.Nil
        sum_list.Cons add.assoc add_0_right)
  then show ?thesis by (simp add: monobit_sum_def monobit_S_def)
qed

section \<open>Properties of the concurrent benchmark\<close>

subsection \<open>Retries\<close>

lemma performanceTest_error:
  "returned_error ob \<Longrightarrow> performanceTest ob testSize = Inr (None, 0, Fin 0, attempt_error ob) \<and>
     attempt_error ob \<noteq> None"
  by (auto simp: returned_error_def performanceTest_def attempt_error_def
      split: sum.splits option.splits)

lemma performanceTest_ok:
  "returned_ok ob \<Longrightarrow> \<exists>data d t. performanceTest ob testSize = Inr (Some data, d, t, None)"
  by (auto simp: returned_ok_def performanceTest_def Let_def split: sum.splits option.splits)

lemma retry_loop_error:
  assumes "attempt \<le> maxRetries" "returned_error (obs attempt)"
  shows "retry_loop obs testSize attempt vars sl =
           retry_loop obs testSize (attempt + 1) (None, 0, Fin 0, attempt_error (obs attempt))
             (if attempt < maxRetries then sl @ [(int attempt + 1) * 100 * Millisecond] else sl)"
  using assms performanceTest_error [OF assms(2), of testSize]
  by (subst retry_loop.simps) auto

lemma retry_loop_ok:
  assumes "attempt \<le> maxRetries" "returned_ok (obs attempt)"
  shows "\<exists>data d t. retry_loop obs testSize attempt vars sl = (None, (Some data, d, t, None), sl)"
  using assms performanceTest_ok [OF assms(2), of testSize]
  by (subst retry_loop.simps) auto

lemma retry_loop_exhausted:
  "maxRetries < attempt \<Longrightarrow> retry_loop obs testSize attempt vars sl = (None, vars, sl)"
  by (subst retry_loop.simps) simp

lemma retry_loop_outcome:
  assumes "k \<le> 3" "\<forall>j<k. returned_error (obs j)" "k < 3 \<longrightarrow> returned_ok (obs k)"
  shows "\<exists>data d t. retry_loop obs testSize 0 vars sl =
           (None,
            (data, d, t, if k = 3 then attempt_error (obs 2) else None),
            sl @ map (\<lambda>j. (int j + 1) * 100 * Millisecond) [0..<min k 2])"
proof -
  let ?v = "\<lambda>j. (None, 0, Fin 0, attempt_error (obs j)) :: measurement"
  let ?s1 = "sl @ [100 * Millisecond]"
  let ?s2 = "sl @ [100 * Millisecond, 200 * Millisecond]"
  have step0: "retry_loop obs testSize 0 vars sl = retry_loop obs testSize 1 (?v 0) ?s1"
    if "returned_error (obs 0)"
    using retry_loop_error [where obs = obs and attempt = 0 and testSize = testSize
        and vars = vars and sl = sl] that
    by (simp add: maxRetries_def numeral_2_eq_2 numeral_3_eq_3)
  have step1: "retry_loop obs testSize 1 (?v 0) ?s1 = retry_loop obs testSize 2 (?v 1) ?s2"
    if "returned_error (obs 1)"
    using retry_loop_error [where obs = obs and attempt = 1 and testSize = testSize
        and vars = "?v 0" and sl = ?s1] that
    by (simp add: maxRetries_def numeral_2_eq_2 numeral_3_eq_3)
  have step2: "retry_loop obs testSize 2 (?v 1) ?s2 = retry_loop obs testSize 3 (?v 2) ?s2"
    if "returned_error (obs 2)"
    using retry_loop_error [where obs = obs and attempt = 2 and testSize = testSize
        and vars = "?v 1" and sl = ?s2] that
    by (simp add: maxRetries_def numeral_2_eq_2 numeral_3_eq_3)
  have stop: "retry_loop obs testSize 3 (?v 2) ?s2 = (None, ?v 2, ?s2)"
    by (rule retry_loop_exhausted) (simp add: maxRetries_def)
  have ok: "\<exists>data d t. retry_loop obs testSize j v s = (None, (Some data, d, t, None), s)"
    if "j \<le> 2" "returned_ok (obs j)" for j v s
    using retry_loop_ok [where obs = obs and attempt = j and testSize = testSize
        and vars = v and sl = s] that
    by (simp add: maxRetries_def numeral_2_eq_2 numeral_3_eq_3)
  have u2: "[0..<2] = [0, 1]"
    by (simp add: upt_rec)
  consider "k = 0" | "k = 1" | "k = 2" | "k = 3" using assms(1) by linarith
  then show ?thesis
  proof cases
    case 1
    with assms(3) have "returned_ok (obs 0)" by simp
    from ok [OF _ this, of vars sl] 1 show ?thesis by auto
  next
    case 2
    with assms have e: "returned_error (obs 0)" and o: "returned_ok (obs 1)" by simp_all
    from ok [OF _ o, of "?v 0" ?s1] step0 [OF e] 2 show ?thesis
      by auto
  next
    case 3
    with assms have e0: "returned_error (obs 0)" and e1: "returned_error (obs 1)"
      and o: "returned_ok (obs 2)" by simp_all
    from ok [OF _ o, of "?v 1" ?s2] step0 [OF e0] step1 [OF e1] 3 show ?thesis
      by (auto simp: u2)
  next
    case 4
    with assms have e0: "returned_error (obs 0)" and e1: "returned_error (obs 1)"
      and e2: "returned_error (obs 2)" by simp_all
    from step0 [OF e0] step1 [OF e1] step2 [OF e2] stop 4 show ?thesis
      by (auto simp: u2)
  qed
qed

lemma completed_increment [simp]: "completed (increment now pt) = completed pt + 1"
  by (simp add: increment_def Let_def)

text \<open>
  Claim C8. When the generator call of a trial returns an error, the trial calls it
  again, at most two more times, sleeping 100 ms before the second call and 200 ms
  before the third; when all three calls have failed, the error of the last one is
  recorded in the trial's result. The result is sent to the results channel and the
  progress tracker counts the trial in every case. Here \<open>k\<close> is the number of calls that
  return an error before the first call that returns without one (\<open>k = 3\<close>: all three
  fail).
\<close>

theorem failed_trial_is_retried_and_recorded:
  assumes "k \<le> 3" "\<forall>j<k. returned_error (obs j)" "k < 3 \<longrightarrow> returned_ok (obs k)"
  shows "\<exists>r. resultsChannel (runSingleTest name obs testSize testRun now w)
               = resultsChannel w @ [r] \<and>
             Name r = name \<and> TestRun r = testRun \<and>
             Error r = (if k = 3 then attempt_error (obs 2) else None) \<and>
             (Error r = None \<longleftrightarrow> k < 3) \<and>
             slept (runSingleTest name obs testSize testRun now w)
               = slept w @ map (\<lambda>j. (int j + 1) * 100 * Millisecond) [0..<min k 2] \<and>
             completed (tracker (runSingleTest name obs testSize testRun now w))
               = completed (tracker w) + 1"
proof -
  from retry_loop_outcome [OF assms, of testSize "(None, 0, Fin 0, None)" "slept w"]
  obtain data d t where loop: "retry_loop obs testSize 0 (None, 0, Fin 0, None) (slept w) =
           (None,
            (data, d, t, if k = 3 then attempt_error (obs 2) else None),
            slept w @ map (\<lambda>j. (int j + 1) * 100 * Millisecond) [0..<min k 2])"
    by blast
  have "attempt_error (obs 2) \<noteq> None" if "k = 3"
    using that assms(2) performanceTest_error [of "obs 2" testSize] by simp
  with assms(1) show ?thesis
    by (auto simp: runSingleTest_def loop Let_def)
qed


theorem failed_trial_is_retried_and_recorded_witness:
  "(\<exists>r. resultsChannel (runSingleTest ''G'' (\<lambda>j. (5, Inr ([], Some (ErrorValue ''unavailable''))))
            1024 1 0
            \<lparr>resultsChannel = [], tracker = \<lparr>completed = 0, total = 1, lastPrint = 0\<rparr>,
             slept = [], written = []\<rparr>) = [r] \<and>
        Name r = ''G'' \<and> TestRun r = 1 \<and> Error r = Some (ErrorValue ''unavailable'')) \<and>
   slept (runSingleTest ''G'' (\<lambda>j. (5, Inr ([], Some (ErrorValue ''unavailable''))))
            1024 1 0
            \<lparr>resultsChannel = [], tracker = \<lparr>completed = 0, total = 1, lastPrint = 0\<rparr>,
             slept = [], written = []\<rparr>) = [100000000, 200000000] \<and>
   completed (tracker (runSingleTest ''G'' (\<lambda>j. (5, Inr ([], Some (ErrorValue ''unavailable''))))
            1024 1 0
            \<lparr>resultsChannel = [], tracker = \<lparr>completed = 0, total = 1, lastPrint = 0\<rparr>,
             slept = [], written = []\<rparr>)) = 1"
proof -
  let ?obs = "\<lambda>j :: nat. (5 :: int, Inr ([], Some (ErrorValue ''unavailable''))
                 :: panic + byte list \<times> error option)"
  have h: "\<forall>j<3. returned_error (?obs j)" by (simp add: returned_error_def)
  have u: "[0..<2] = [0, 1]" by (simp add: upt_rec)
  from failed_trial_is_retried_and_recorded [where k = 3 and obs = ?obs and name = "''G''"
      and testSize = 1024 and testRun = 1 and now = 0
      and w = "\<lparr>resultsChannel = [], tracker = \<lparr>completed = 0, total = 1, lastPrint = 0\<rparr>,
             slept = [], written = []\<rparr>", OF _ h]
  show ?thesis
    by (auto simp: attempt_error_def Millisecond_def u)
qed

text \<open>A panic of the generator is not retried; it is recovered and recorded as well.\<close>

lemma panic_is_recorded:
  assumes "snd (obs 0) = Inl p"
  shows "\<exists>r. resultsChannel (runSingleTest name obs testSize testRun now w)
               = resultsChannel w @ [r] \<and>
             Error r = Some (PanicOccurred p) \<and>
             slept (runSingleTest name obs testSize testRun now w) = slept w \<and>
             completed (tracker (runSingleTest name obs testSize testRun now w))
               = completed (tracker w) + 1"
proof -
  have "retry_loop obs testSize 0 (None, 0, Fin 0, None) (slept w)
        = (Some p, (None, 0, Fin 0, None), slept w)"
    using assms by (subst retry_loop.simps) (simp add: performanceTest_def)
  then show ?thesis by (simp add: runSingleTest_def Let_def)
qed

subsection \<open>Aggregation\<close>

lemma tally_other: "Name r \<noteq> G \<Longrightarrow> tally m r G = m G"
  by (simp add: tally_def Let_def)

definition failures_added :: "AggregatedResult \<Rightarrow> int \<Rightarrow> AggregatedResult" where
  "failures_added a k = a\<lparr>TotalTests := TotalTests a + k, FailedTests := FailedTests a + k\<rparr>"

lemma failures_added_twice: "failures_added (failures_added a j) k = failures_added a (j + k)"
  by (simp add: failures_added_def)

lemma tally_failed:
  assumes "Error r \<noteq> None"
  shows "tally m r (Name r)
         = Some (failures_added (case m (Name r) of None \<Rightarrow> new_aggregate (Name r) | Some a \<Rightarrow> a) 1)"
proof -
  from assms obtain e where "Error r = Some e" by auto
  then show ?thesis by (simp add: tally_def Let_def failures_added_def)
qed

lemma tally_all_failed:
  assumes "\<forall>r \<in> set rs. Name r = G \<longrightarrow> Error r \<noteq> None"
  shows "foldl tally m rs G =
           (if filter (\<lambda>r. Name r = G) rs = [] then m G
            else Some (failures_added (case m G of None \<Rightarrow> new_aggregate G | Some a \<Rightarrow> a)
                         (int (length (filter (\<lambda>r. Name r = G) rs)))))"
  using assms
proof (induction rs arbitrary: m)
  case Nil
  show ?case by simp
next
  case (Cons r rs)
  from Cons.prems have rest: "\<forall>r \<in> set rs. Name r = G \<longrightarrow> Error r \<noteq> None" by simp
  let ?k = "int (length (filter (\<lambda>r. Name r = G) rs))"
  let ?a0 = "case m G of None \<Rightarrow> new_aggregate G | Some a \<Rightarrow> a"
  show ?case
  proof (cases "Name r = G")
    case True
    with Cons.prems have "Error r \<noteq> None" by simp
    from tally_failed [OF this, of m]
    have t: "tally m r G = Some (failures_added ?a0 1)"
      unfolding True .
    have "foldl tally m (r # rs) G = foldl tally (tally m r) rs G" by simp
    also have "\<dots> = (if filter (\<lambda>r. Name r = G) rs = [] then Some (failures_added ?a0 1)
                      else Some (failures_added (failures_added ?a0 1) ?k))"
      by (simp only: Cons.IH [OF rest] t option.case)
    also have "\<dots> = Some (failures_added ?a0 (1 + ?k))"
      by (simp add: failures_added_twice)
    finally show ?thesis using True by simp
  next
    case False
    from Cons.IH [OF rest, of "tally m r"] False show ?thesis
      by (simp add: tally_other)
  qed
qed

text \<open>
  Claim C9. For a list of results in which the generator name \<open>G\<close> occurs and every result
  of \<open>G\<close> carries an error, \<^verbatim>\<open>aggregateResults\<close> has an entry for \<open>G\<close>: its total is
  the number of results of \<open>G\<close>, none of them successful and all of them failed; the
  averages are not computed (no division takes place) and keep their zero values.
\<close>

theorem all_failed_generator_is_aggregated:
  assumes "G \<in> Name ` set results" "\<forall>r \<in> set results. Name r = G \<longrightarrow> Error r \<noteq> None"
  shows "\<exists>agg. aggregateResults results G = Some agg \<and>
           AggName agg = G \<and>
           TotalTests agg = int (length (filter (\<lambda>r. Name r = G) results)) \<and>
           0 < TotalTests agg \<and>
           SuccessfulTests agg = 0 \<and>
           FailedTests agg = TotalTests agg \<and>
           AvgDuration agg = 0 \<and> AvgThroughput agg = Fin 0 \<and> AvgAnalysis agg = Analysis_zero"
proof -
  from assms(1) have ne: "filter (\<lambda>r. Name r = G) results \<noteq> []"
    by (auto simp: filter_empty_conv)
  with tally_all_failed [OF assms(2), of Map.empty]
  have "foldl tally Map.empty results G
        = Some (failures_added (new_aggregate G) (int (length (filter (\<lambda>r. Name r = G) results))))"
    by simp
  with ne show ?thesis
    by (simp add: aggregateResults_def Let_def averages_def failures_added_def new_aggregate_def)
qed

theorem all_failed_generator_is_aggregated_witness:
  "(\<exists>agg. aggregateResults
       [\<lparr>Name = ''G'', TestRun = 1, Duration = 0, Throughput = Fin 0, Analysis = Analysis_zero,
         Filename = ''f1'', Error = Some (ErrorValue ''unavailable'')\<rparr>,
        \<lparr>Name = ''H'', TestRun = 1, Duration = 7, Throughput = Fin 3, Analysis = Analysis_zero,
         Filename = ''f2'', Error = None\<rparr>,
        \<lparr>Name = ''G'', TestRun = 2, Duration = 0, Throughput = Fin 0, Analysis = Analysis_zero,
         Filename = ''f3'', Error = Some (PanicOccurred SliceBoundsOutOfRange)\<rparr>] ''G'' = Some agg \<and>
     TotalTests agg = 2 \<and> SuccessfulTests agg = 0 \<and> FailedTests agg = 2)"
proof -
  let ?rs = "[\<lparr>Name = ''G'', TestRun = 1, Duration = 0, Throughput = Fin 0, Analysis = Analysis_zero,
         Filename = ''f1'', Error = Some (ErrorValue ''unavailable'')\<rparr>,
        \<lparr>Name = ''H'', TestRun = 1, Duration = 7, Throughput = Fin 3, Analysis = Analysis_zero,
         Filename = ''f2'', Error = None\<rparr>,
        \<lparr>Name = ''G'', TestRun = 2, Duration = 0, Throughput = Fin 0, Analysis = Analysis_zero,
         Filename = ''f3'', Error = Some (PanicOccurred SliceBoundsOutOfRange)\<rparr>]"
  have h1: "''G'' \<in> Name ` set ?rs" by simp
  have h2: "\<forall>r \<in> set ?rs. Name r = ''G'' \<longrightarrow> Error r \<noteq> None" by simp
  from all_failed_generator_is_aggregated [OF h1 h2] show ?thesis by auto
qed

end
